(* ===== verification/Prelude.thy ===== *)
theory Prelude
  imports Main "HOL-Library.Word"
begin

text \<open>
  Shared vocabulary of the development: machine integer types, byte strings, big-endian
  integer encodings (the \<open>to_be_bytes\<close> / \<open>from_be_bytes\<close> of the Rust standard
  library), results of fallible code, and the generic lemmas on lists that the components
  use. The locale \<open>prefix_codec\<close> is the interface every self-delimiting encoding of the
  program is proved against.
\<close>

section \<open>Types and collections\<close>

type_synonym u8 = "8 word"
type_synonym u16 = "16 word"
type_synonym u32 = "32 word"
type_synonym u64 = "64 word"
type_synonym bytes = "u8 list"

named_theorems wire_simps \<open>lengths and decodings of byte-level encoders\<close>
named_theorems result_splits \<open>case splits for results of fallible code\<close>

declare sum.splits [result_splits] option.splits [result_splits] prod.splits [result_splits]
  if_splits [result_splits]

section \<open>Results\<close>

text \<open>\<open>is_ok\<close> and \<open>is_err\<close> are the two tests of a Rust \<open>Result\<close>.\<close>

abbreviation is_ok :: "'e + 'a \<Rightarrow> bool" where
  "is_ok r \<equiv> \<not> isl r"

lemma isr_iff: "\<not> isl r \<longleftrightarrow> (\<exists>a. r = Inr a)"
  by (cases r) auto

section \<open>Big-endian integers\<close>

text \<open>\<open>be_nat n x\<close> is the \<open>n\<close>-byte big-endian representation of \<open>x\<close> (modulo \<open>256 ^ n\<close>).\<close>

primrec be_nat :: "nat \<Rightarrow> nat \<Rightarrow> bytes" where
  "be_nat 0 x = []"
| "be_nat (Suc n) x = be_nat n (x div 256) @ [word_of_nat (x mod 256)]"

definition from_be_nat :: "bytes \<Rightarrow> nat" where
  "from_be_nat bs = foldl (\<lambda>a b. a * 256 + unat b) 0 bs"

definition to_be_bytes16 :: "u16 \<Rightarrow> bytes" where
  "to_be_bytes16 w = be_nat 2 (unat w)"

definition to_be_bytes32 :: "u32 \<Rightarrow> bytes" where
  "to_be_bytes32 w = be_nat 4 (unat w)"

definition to_be_bytes64 :: "u64 \<Rightarrow> bytes" where
  "to_be_bytes64 w = be_nat 8 (unat w)"

definition from_be_bytes16 :: "bytes \<Rightarrow> u16" where
  "from_be_bytes16 bs = word_of_nat (from_be_nat bs)"

definition from_be_bytes32 :: "bytes \<Rightarrow> u32" where
  "from_be_bytes32 bs = word_of_nat (from_be_nat bs)"

definition from_be_bytes64 :: "bytes \<Rightarrow> u64" where
  "from_be_bytes64 bs = word_of_nat (from_be_nat bs)"

lemma unat_lt: "unat (w :: 'a::len word) < 2 ^ LENGTH('a)"
  by (rule unsigned_less)

lemma length_be_nat [simp, wire_simps]: "length (be_nat n x) = n"
  by (induction n arbitrary: x) auto

lemma from_be_nat_Nil [simp]: "from_be_nat [] = 0"
  by (simp add: from_be_nat_def)

lemma from_be_nat_snoc: "from_be_nat (bs @ [b]) = from_be_nat bs * 256 + unat b"
  by (simp add: from_be_nat_def)

lemma unat_byte_mod [simp]: "unat (word_of_nat (x mod 256) :: u8) = x mod 256"
  by (simp add: unat_of_nat)

lemma from_be_nat_be_nat: "from_be_nat (be_nat n x) = x mod 256 ^ n"
proof (induction n arbitrary: x)
  case 0
  then show ?case by simp
next
  case (Suc n)
  have "from_be_nat (be_nat (Suc n) x) = (x div 256) mod 256 ^ n * 256 + x mod 256"
    by (simp add: from_be_nat_snoc Suc.IH)
  also have "\<dots> = x mod (256 * 256 ^ n)"
    by (simp add: mod_mult2_eq)
  finally show ?case by simp
qed

lemma from_be_nat_bound: "from_be_nat bs < 256 ^ length bs"
proof (induction bs rule: rev_induct)
  case Nil
  then show ?case by simp
next
  case (snoc b bs)
  have "unat b < 256"
    using unat_lt [of b] by simp
  with snoc.IH have "from_be_nat bs * 256 + unat b < (from_be_nat bs + 1) * 256"
    by simp
  also have "\<dots> \<le> 256 ^ length bs * 256"
    using snoc.IH by simp
  finally show ?case by (simp add: from_be_nat_snoc mult.commute)
qed

lemma be_nat_from_be_nat: "be_nat (length bs) (from_be_nat bs) = bs"
proof (induction bs rule: rev_induct)
  case Nil
  then show ?case by simp
next
  case (snoc b bs)
  have b: "unat b < 256"
    using unat_lt [of b] by simp
  then have "(from_be_nat bs * 256 + unat b) div 256 = from_be_nat bs"
    by simp
  moreover have "(from_be_nat bs * 256 + unat b) mod 256 = unat b"
    using b by simp
  ultimately show ?case
    using snoc.IH by (simp add: from_be_nat_snoc)
qed

lemma length_to_be_bytes [simp, wire_simps]:
  "length (to_be_bytes16 a) = 2" "length (to_be_bytes32 b) = 4" "length (to_be_bytes64 c) = 8"
  by (simp_all add: to_be_bytes16_def to_be_bytes32_def to_be_bytes64_def)

lemma from_to_be_bytes16 [simp, wire_simps]: "from_be_bytes16 (to_be_bytes16 w) = w"
  using unat_lt [of w]
  by (simp add: from_be_bytes16_def to_be_bytes16_def from_be_nat_be_nat)

lemma from_to_be_bytes32 [simp, wire_simps]: "from_be_bytes32 (to_be_bytes32 w) = w"
  using unat_lt [of w]
  by (simp add: from_be_bytes32_def to_be_bytes32_def from_be_nat_be_nat)

lemma from_to_be_bytes64 [simp, wire_simps]: "from_be_bytes64 (to_be_bytes64 w) = w"
  using unat_lt [of w]
  by (simp add: from_be_bytes64_def to_be_bytes64_def from_be_nat_be_nat)

lemma unat_from_be_bytes32: "length bs = 4 \<Longrightarrow> unat (from_be_bytes32 bs) = from_be_nat bs"
  using from_be_nat_bound [of bs] by (simp add: from_be_bytes32_def unat_of_nat)

lemma to_from_be_bytes16: "length bs = 2 \<Longrightarrow> to_be_bytes16 (from_be_bytes16 bs) = bs"
  using from_be_nat_bound [of bs] be_nat_from_be_nat [of bs]
  by (simp add: from_be_bytes16_def to_be_bytes16_def unat_of_nat)

lemma to_from_be_bytes32: "length bs = 4 \<Longrightarrow> to_be_bytes32 (from_be_bytes32 bs) = bs"
  using from_be_nat_bound [of bs] be_nat_from_be_nat [of bs]
  by (simp add: from_be_bytes32_def to_be_bytes32_def unat_of_nat)

lemma to_from_be_bytes64: "length bs = 8 \<Longrightarrow> to_be_bytes64 (from_be_bytes64 bs) = bs"
  using from_be_nat_bound [of bs] be_nat_from_be_nat [of bs]
  by (simp add: from_be_bytes64_def to_be_bytes64_def unat_of_nat)

section \<open>Self-delimiting encodings\<close>

text \<open>
  An encoder \<open>enc\<close> whose output a decoder \<open>dec\<close> recognises at the front of a longer
  byte string, returning the value and the bytes it did not use. \<open>ok\<close> is the set of values
  the encoder is used for. Every stream format of the program is an instance; what a reader
  recovers from a concatenation of records is proved here once.
\<close>

locale prefix_codec =
  fixes enc :: "'a \<Rightarrow> bytes"
    and dec :: "bytes \<Rightarrow> ('a \<times> bytes) option"
    and ok :: "'a \<Rightarrow> bool"
  assumes dec_enc: "ok x \<Longrightarrow> dec (enc x @ rest) = Some (x, rest)"
begin

lemma enc_inject_prefix: "ok x \<Longrightarrow> ok y \<Longrightarrow> enc x @ r = enc y @ s \<Longrightarrow> x = y \<and> r = s"
  by (metis dec_enc option.inject prod.inject)

lemma enc_inj: "ok x \<Longrightarrow> ok y \<Longrightarrow> enc x = enc y \<Longrightarrow> x = y"
  using enc_inject_prefix [of x y "[]" "[]"] by simp

end

text \<open>\<open>decode_many n dec bs\<close> calls the decoder \<open>n\<close> times, stopping at the first failure.\<close>

primrec decode_many :: "nat \<Rightarrow> (bytes \<Rightarrow> ('a \<times> bytes) option) \<Rightarrow> bytes \<Rightarrow> 'a list \<times> bytes" where
  "decode_many 0 dec bs = ([], bs)"
| "decode_many (Suc n) dec bs =
     (case dec bs of
        None \<Rightarrow> ([], bs)
      | Some (x, rest) \<Rightarrow> (let (xs, r) = decode_many n dec rest in (x # xs, r)))"

context prefix_codec
begin

lemma decode_many_concat:
  "\<forall>x \<in> set xs. ok x \<Longrightarrow>
   decode_many (length xs) dec (concat (map enc xs) @ rest) = (xs, rest)"
  by (induction xs) (auto simp: dec_enc)

lemma concat_enc_inj:
  "\<forall>x \<in> set xs. ok x \<Longrightarrow> \<forall>y \<in> set ys. ok y \<Longrightarrow> length xs = length ys \<Longrightarrow>
   concat (map enc xs) = concat (map enc ys) \<Longrightarrow> xs = ys"
  using decode_many_concat [of xs "[]"] decode_many_concat [of ys "[]"] by simp

end

section \<open>Lists\<close>

text \<open>\<open>copy_at i src dst\<close> is \<open>dst[i..i + src.len()].copy_from_slice(src)\<close>.\<close>

definition copy_at :: "nat \<Rightarrow> 'a list \<Rightarrow> 'a list \<Rightarrow> 'a list" where
  "copy_at i src dst = take i dst @ src @ drop (i + length src) dst"

lemma take_append_length [simp]: "length xs = n \<Longrightarrow> take n (xs @ ys) = xs"
  by simp

lemma drop_append_length [simp]: "length xs = n \<Longrightarrow> drop n (xs @ ys) = ys"
  by simp

text \<open>\<open>sub_list i j xs\<close> is Rust's \<open>xs[i..j]\<close> for \<open>i \<le> j \<le> len\<close>.\<close>

definition sub_list :: "nat \<Rightarrow> nat \<Rightarrow> 'a list \<Rightarrow> 'a list" where
  "sub_list i j xs = take (j - i) (drop i xs)"

lemma length_sub_list [simp]: "j \<le> length xs \<Longrightarrow> length (sub_list i j xs) = j - i"
  by (simp add: sub_list_def)

lemma sub_list_append_left: "j \<le> length xs \<Longrightarrow> sub_list i j (xs @ ys) = sub_list i j xs"
  by (cases "i \<le> length xs") (simp_all add: sub_list_def)

lemma sub_list_append_right:
  "length xs \<le> i \<Longrightarrow> sub_list i j (xs @ ys) = sub_list (i - length xs) (j - length xs) ys"
  by (cases "i \<le> j") (simp_all add: sub_list_def)

lemma sub_list_Cons: "0 < i \<Longrightarrow> sub_list i j (x # xs) = sub_list (i - 1) (j - 1) xs"
  by (cases i; cases j) (simp_all add: sub_list_def)

lemma sub_list_full [simp]: "length xs = n \<Longrightarrow> sub_list 0 n xs = xs"
  by (simp add: sub_list_def)

text \<open>
  \<open>Iterator::max_by_key\<close>: the element with the greatest key, the last one among equals.
\<close>

fun max_by_key :: "('a \<Rightarrow> 'k::linorder) \<Rightarrow> 'a list \<Rightarrow> 'a option" where
  "max_by_key key [] = None"
| "max_by_key key (x # xs) =
     Some (foldl (\<lambda>best y. if key best \<le> key y then y else best) x xs)"

lemma foldl_max_by_key:
  "foldl (\<lambda>best y. if key best \<le> key y then y else best) x xs \<in> set (x # xs) \<and>
   (\<forall>y \<in> set (x # xs). key y \<le>
      (key (foldl (\<lambda>best y. if key best \<le> key y then y else best) x xs) :: 'k::linorder))"
proof (induction xs arbitrary: x)
  case Nil
  then show ?case by simp
next
  case (Cons a xs)
  show ?case
    using Cons.IH [of "if key x \<le> key a then a else x"]
    by (auto split: if_splits intro: order_trans)
qed

lemma max_by_key_Some:
  assumes "max_by_key key xs = Some m"
  shows "m \<in> set xs" and "\<And>y. y \<in> set xs \<Longrightarrow> key y \<le> key m"
  using assms foldl_max_by_key [of key] by (cases xs; fastforce)+

lemma max_by_key_None [simp]: "max_by_key key xs = None \<longleftrightarrow> xs = []"
  by (cases xs) auto

end
