(* ===== verification/F64.thy ===== *)
theory F64
  imports Complex_Main Prelude
begin

text \<open>
  IEEE-754 binary64, the \<open>f64\<close> of Rust, as far as the program computes with it: finite
  values as exact rationals, the two infinities and NaN. Every arithmetic result is rounded
  to the nearest 53-bit significand, ties to even, with the subnormal range and overflow to
  infinity written out. The two zeros are one value here; no operation of the program tells
  them apart. Rounding is proved monotone, idempotent and exact on integers below \<open>2^53\<close>;
  the components only use those facts.
\<close>

section \<open>Powers of two and binary exponents of rationals\<close>

definition pow2 :: "int \<Rightarrow> rat" where
  "pow2 e = (if 0 \<le> e then 2 ^ nat e else 1 / 2 ^ nat (- e))"

function bitlen :: "int \<Rightarrow> int" where
  "bitlen n = (if n \<le> 0 then 0 else 1 + bitlen (n div 2))"
  by pat_completeness auto
termination
  by (relation "measure nat") auto

declare bitlen.simps [simp del]

definition rat_exp :: "rat \<Rightarrow> int" where
  "rat_exp x =
     (let (n, d) = quotient_of x;
          k = bitlen n - bitlen d
      in if x < pow2 k then k - 1 else k)"

section \<open>Rounding\<close>

definition round_half_even :: "rat \<Rightarrow> int" where
  "round_half_even x =
     (let n = \<lfloor>x\<rfloor>; r = x - of_int n
      in if r < 1 / 2 then n else if 1 / 2 < r then n + 1 else if even n then n else n + 1)"

text \<open>The exponent of the last significand bit at the magnitude of \<open>x\<close>.\<close>

definition ulp_exp :: "rat \<Rightarrow> int" where
  "ulp_exp x = max (- 1074) (rat_exp \<bar>x\<bar> - 52)"

definition round_rat :: "rat \<Rightarrow> rat" where
  "round_rat x =
     (if x = 0 then 0
      else let e = ulp_exp x in of_int (round_half_even (x / pow2 e)) * pow2 e)"

datatype f64 = Fin rat | PInf | NInf | NaN

definition f64_round :: "rat \<Rightarrow> f64" where
  "f64_round x =
     (let y = round_rat x
      in if 2 ^ 1024 \<le> y then PInf else if y \<le> - (2 ^ 1024) then NInf else Fin y)"

section \<open>Arithmetic, comparison, conversion\<close>

fun f64_add :: "f64 \<Rightarrow> f64 \<Rightarrow> f64" where
  "f64_add (Fin a) (Fin b) = f64_round (a + b)"
| "f64_add NaN b = NaN"
| "f64_add a NaN = NaN"
| "f64_add PInf NInf = NaN"
| "f64_add NInf PInf = NaN"
| "f64_add PInf b = PInf"
| "f64_add NInf b = NInf"
| "f64_add a PInf = PInf"
| "f64_add a NInf = NInf"

fun f64_neg :: "f64 \<Rightarrow> f64" where
  "f64_neg (Fin a) = Fin (- a)"
| "f64_neg PInf = NInf"
| "f64_neg NInf = PInf"
| "f64_neg NaN = NaN"

definition f64_sub :: "f64 \<Rightarrow> f64 \<Rightarrow> f64" where
  "f64_sub a b = f64_add a (f64_neg b)"

text \<open>\<open>f64_inf q\<close> is the infinity with the sign of \<open>q\<close>, NaN for zero.\<close>

definition f64_inf :: "rat \<Rightarrow> f64" where
  "f64_inf q = (if 0 < q then PInf else if q < 0 then NInf else NaN)"

fun f64_mul :: "f64 \<Rightarrow> f64 \<Rightarrow> f64" where
  "f64_mul (Fin a) (Fin b) = f64_round (a * b)"
| "f64_mul NaN b = NaN"
| "f64_mul a NaN = NaN"
| "f64_mul (Fin a) PInf = f64_inf a"
| "f64_mul PInf (Fin b) = f64_inf b"
| "f64_mul (Fin a) NInf = f64_inf (- a)"
| "f64_mul NInf (Fin b) = f64_inf (- b)"
| "f64_mul PInf PInf = PInf"
| "f64_mul NInf NInf = PInf"
| "f64_mul PInf NInf = NInf"
| "f64_mul NInf PInf = NInf"

fun f64_div :: "f64 \<Rightarrow> f64 \<Rightarrow> f64" where
  "f64_div (Fin a) (Fin b) = (if b = 0 then f64_inf a else f64_round (a / b))"
| "f64_div NaN b = NaN"
| "f64_div a NaN = NaN"
| "f64_div (Fin a) PInf = Fin 0"
| "f64_div (Fin a) NInf = Fin 0"
| "f64_div PInf (Fin b) = (if b < 0 then NInf else PInf)"
| "f64_div NInf (Fin b) = (if b < 0 then PInf else NInf)"
| "f64_div PInf PInf = NaN"
| "f64_div PInf NInf = NaN"
| "f64_div NInf PInf = NaN"
| "f64_div NInf NInf = NaN"

fun f64_less :: "f64 \<Rightarrow> f64 \<Rightarrow> bool" where
  "f64_less (Fin a) (Fin b) \<longleftrightarrow> a < b"
| "f64_less NaN b \<longleftrightarrow> False"
| "f64_less a NaN \<longleftrightarrow> False"
| "f64_less PInf b \<longleftrightarrow> False"
| "f64_less (Fin a) PInf \<longleftrightarrow> True"
| "f64_less (Fin a) NInf \<longleftrightarrow> False"
| "f64_less NInf NInf \<longleftrightarrow> False"
| "f64_less NInf (Fin b) \<longleftrightarrow> True"
| "f64_less NInf PInf \<longleftrightarrow> True"

instantiation f64 :: "{zero, plus, minus, times, divide, inverse, ord}"
begin

definition zero_f64 :: f64 where
  "zero_f64 = Fin 0"

definition plus_f64 :: "f64 \<Rightarrow> f64 \<Rightarrow> f64" where
  "plus_f64 = f64_add"

definition minus_f64 :: "f64 \<Rightarrow> f64 \<Rightarrow> f64" where
  "minus_f64 = f64_sub"

definition times_f64 :: "f64 \<Rightarrow> f64 \<Rightarrow> f64" where
  "times_f64 = f64_mul"

definition divide_f64 :: "f64 \<Rightarrow> f64 \<Rightarrow> f64" where
  "divide_f64 = f64_div"

definition inverse_f64 :: "f64 \<Rightarrow> f64" where
  "inverse_f64 = f64_div (Fin 1)"

definition less_f64 :: "f64 \<Rightarrow> f64 \<Rightarrow> bool" where
  "less_f64 = f64_less"

definition less_eq_f64 :: "f64 \<Rightarrow> f64 \<Rightarrow> bool" where
  "less_eq_f64 a b \<longleftrightarrow> f64_less a b \<or> a = b \<and> a \<noteq> NaN"

instance ..

end

lemmas f64_op_defs = zero_f64_def plus_f64_def minus_f64_def times_f64_def divide_f64_def
  less_f64_def less_eq_f64_def f64_sub_def

text \<open>A decimal literal denotes the nearest double.\<close>

abbreviation f64_lit :: "rat \<Rightarrow> f64" where
  "f64_lit q \<equiv> f64_round q"

text \<open>\<open>f64::max\<close>: a NaN operand is ignored.\<close>

definition f64_max :: "f64 \<Rightarrow> f64 \<Rightarrow> f64" where
  "f64_max a b = (if a = NaN then b else if b = NaN then a else if a < b then b else a)"

definition f64_min :: "f64 \<Rightarrow> f64 \<Rightarrow> f64" where
  "f64_min a b = (if a = NaN then b else if b = NaN then a else if b < a then b else a)"

text \<open>\<open>n as f64\<close> for an integer, and the saturating cast \<open>x as uN\<close>.\<close>

definition f64_of_int :: "int \<Rightarrow> f64" where
  "f64_of_int n = f64_round (of_int n)"

fun f64_to_int_sat :: "int \<Rightarrow> f64 \<Rightarrow> int" where
  "f64_to_int_sat m (Fin q) = min m (max 0 \<lfloor>q\<rfloor>)"
| "f64_to_int_sat m PInf = m"
| "f64_to_int_sat m NInf = 0"
| "f64_to_int_sat m NaN = 0"

definition f64_as_u64 :: "f64 \<Rightarrow> u64" where
  "f64_as_u64 x = word_of_int (f64_to_int_sat (2 ^ 64 - 1) x)"

definition f64_as_u8 :: "f64 \<Rightarrow> u8" where
  "f64_as_u8 x = word_of_int (f64_to_int_sat 255 x)"


section \<open>Powers of two\<close>

lemma pow2_pos [simp]: "0 < pow2 e"
  by (simp add: pow2_def)

lemma pow2_nonzero [simp]: "pow2 e \<noteq> 0"
  using pow2_pos [of e] by linarith

lemma pow2_powi: "pow2 e = 2 powi e"
  by (simp add: pow2_def power_int_def inverse_eq_divide power_one_over)

lemma pow2_add: "pow2 (a + b) = pow2 a * pow2 b"
  by (simp add: pow2_powi power_int_add)

lemma pow2_mono: "a \<le> b \<Longrightarrow> pow2 a \<le> pow2 b"
  by (simp add: pow2_powi power_int_increasing)

lemma pow2_inj: "pow2 a = pow2 b \<Longrightarrow> a = b"
  using power_int_strict_increasing [of a b "2 :: rat"] power_int_strict_increasing [of b a "2 :: rat"]
  by (cases a b rule: linorder_cases) (auto simp: pow2_powi)

lemma pow2_less_iff: "pow2 a < pow2 b \<longleftrightarrow> a < b"
  by (metis leD linorder_not_le order.strict_iff_order pow2_mono pow2_inj)

lemma pow2_nat: "pow2 (int n) = 2 ^ n"
  by (simp add: pow2_def)

lemma bitlen_bounds:
  "0 < n \<Longrightarrow> 0 < bitlen n \<and> pow2 (bitlen n - 1) \<le> of_int n \<and> of_int n < pow2 (bitlen n)"
proof (induction n rule: bitlen.induct)
  case (1 n)
  show ?case
  proof (cases "n = 1")
    case True
    then show ?thesis by (simp add: bitlen.simps [of 1] bitlen.simps [of 0] pow2_def)
  next
    case False
    with "1.prems" have pos: "0 < n div 2" and len: "bitlen n = 1 + bitlen (n div 2)"
      by (simp_all add: bitlen.simps [of n])
    have lo: "2 * of_int (n div 2) \<le> (of_int n :: rat)" and hi: "(of_int n :: rat) < 2 * (of_int (n div 2) + 1)"
    proof -
      have "2 * (n div 2) \<le> n" "n < 2 * (n div 2 + 1)" by auto
      then have "(of_int (2 * (n div 2)) :: rat) \<le> of_int n"
        "(of_int n :: rat) < of_int (2 * (n div 2 + 1))"
        by (simp_all only: of_int_le_iff of_int_less_iff)
      then show "2 * of_int (n div 2) \<le> (of_int n :: rat)"
        "(of_int n :: rat) < 2 * (of_int (n div 2) + 1)" by simp_all
    qed
    obtain m where m: "bitlen (n div 2) = int m"
      using "1.IH" pos "1.prems" by (metis linorder_not_less zero_less_imp_eq_int)
    have ih: "0 < bitlen (n div 2)" "pow2 (bitlen (n div 2) - 1) \<le> of_int (n div 2)"
      "of_int (n div 2) < pow2 (bitlen (n div 2))"
      using "1.IH" pos "1.prems" by auto
    have "n div 2 < 2 ^ m"
      using ih(3) of_int_less_iff [where ?'a = rat, of "n div 2" "2 ^ m"] by (simp add: m pow2_nat)
    then have "of_int (n div 2 + 1) \<le> (of_int (2 ^ m) :: rat)"
      by (simp only: of_int_le_iff)
    then have "of_int (n div 2) + 1 \<le> pow2 (bitlen (n div 2))"
      by (simp add: m pow2_nat)
    then have "of_int n < pow2 (bitlen n)"
      using hi by (simp add: len pow2_add [of 1] pow2_def [of 1])
    moreover have "pow2 (bitlen n - 1) \<le> of_int n"
      using lo ih(2) pow2_add [of 1 "bitlen (n div 2) - 1"] by (simp add: len pow2_def [of 1])
    ultimately show ?thesis using ih(1) by (simp add: len)
  qed
qed

lemma rat_exp_bounds:
  assumes "0 < x"
  shows "pow2 (rat_exp x) \<le> x \<and> x < pow2 (rat_exp x + 1)"
proof -
  obtain n d where q: "quotient_of x = (n, d)" by (cases "quotient_of x")
  have d: "0 < d" using quotient_of_denom_pos [OF q] .
  have x: "x = of_int n / of_int d" using quotient_of_div [OF q] .
  have n: "0 < n" using assms d by (simp add: x zero_less_divide_iff)
  define k where "k = bitlen n - bitlen d"
  note nb = bitlen_bounds [OF n] and db = bitlen_bounds [OF d]
  have dpos: "(0 :: rat) < of_int d" using d by simp
  have "x < pow2 (k + 1)"
  proof -
    have "of_int n < pow2 (k + 1) * pow2 (bitlen d - 1)"
      using nb by (simp add: k_def flip: pow2_add)
    also have "\<dots> \<le> pow2 (k + 1) * of_int d"
      using db by simp
    finally show ?thesis using dpos by (simp add: x divide_less_eq)
  qed
  moreover have "pow2 (k - 1) \<le> x"
  proof -
    have "pow2 (k - 1) * of_int d \<le> pow2 (k - 1) * pow2 (bitlen d)"
      using db by simp
    also have "\<dots> \<le> of_int n"
      using nb by (simp add: k_def flip: pow2_add)
    finally show ?thesis using dpos by (simp add: x le_divide_eq)
  qed
  ultimately show ?thesis
    by (auto simp: rat_exp_def q Let_def k_def [symmetric])
qed

lemma rat_exp_unique:
  assumes "pow2 k \<le> x" and "x < pow2 (k + 1)"
  shows "rat_exp x = k"
proof -
  have x: "0 < x" using assms(1) pow2_pos [of k] by linarith
  have "pow2 k < pow2 (rat_exp x + 1)" "pow2 (rat_exp x) < pow2 (k + 1)"
    using rat_exp_bounds [OF x] assms by linarith+
  then show ?thesis by (simp add: pow2_less_iff)
qed

lemma rat_exp_mono: "0 < x \<Longrightarrow> x \<le> y \<Longrightarrow> rat_exp x \<le> rat_exp y"
proof -
  assume x: "0 < x" "x \<le> y"
  then have "pow2 (rat_exp x) < pow2 (rat_exp y + 1)"
    using rat_exp_bounds [of x] rat_exp_bounds [of y] by linarith
  then show ?thesis by (simp add: pow2_less_iff)
qed


section \<open>Rounding\<close>

lemma round_half_even_mono:
  assumes "x \<le> y"
  shows "round_half_even x \<le> round_half_even y"
proof (cases "\<lfloor>x\<rfloor> = \<lfloor>y\<rfloor>")
  case True
  with assms show ?thesis by (auto simp: round_half_even_def Let_def)
next
  case False
  then have "\<lfloor>x\<rfloor> + 1 \<le> \<lfloor>y\<rfloor>" using floor_mono [OF assms] by simp
  moreover have "round_half_even x \<le> \<lfloor>x\<rfloor> + 1" "\<lfloor>y\<rfloor> \<le> round_half_even y"
    by (auto simp: round_half_even_def Let_def)
  ultimately show ?thesis by linarith
qed

lemma round_half_even_of_int [simp]: "round_half_even (of_int n) = n"
  by (simp add: round_half_even_def)

lemma round_half_even_minus: "round_half_even (- x) = - round_half_even x"
proof (cases "x = of_int \<lfloor>x\<rfloor>")
  case True
  then show ?thesis by (metis of_int_minus round_half_even_of_int)
next
  case False
  then have "\<lfloor>- x\<rfloor> = - \<lfloor>x\<rfloor> - 1"
    using floor_correct [of x] by (intro floor_unique) (auto simp: order.strict_iff_order)
  then show ?thesis by (auto simp: round_half_even_def Let_def)
qed

lemma round_rat_0 [simp]: "round_rat 0 = 0"
  by (simp add: round_rat_def)

lemma round_rat_minus: "round_rat (- x) = - round_rat x"
  by (simp add: round_rat_def ulp_exp_def Let_def round_half_even_minus)

text \<open>Bounds of a rounded positive value by the powers of two around it.\<close>

lemma round_half_even_le_int: "x \<le> of_int n \<Longrightarrow> round_half_even x \<le> n"
  using round_half_even_mono [of x "of_int n"] by simp

lemma round_half_even_ge_int: "of_int n \<le> x \<Longrightarrow> n \<le> round_half_even x"
  using round_half_even_mono [of "of_int n" x] by simp

lemma round_rat_nonneg: "0 \<le> x \<Longrightarrow> 0 \<le> round_rat x"
  using round_half_even_ge_int [of 0 "x / pow2 (ulp_exp x)"]
  by (simp add: round_rat_def Let_def less_imp_le)

lemma round_rat_upper: "0 < x \<Longrightarrow> round_rat x \<le> pow2 (ulp_exp x + 53)"
proof -
  assume x: "0 < x"
  have "x < pow2 (rat_exp x + 1)" using rat_exp_bounds [OF x] by simp
  also have "\<dots> \<le> pow2 (ulp_exp x + 53)"
    using x by (intro pow2_mono) (simp add: ulp_exp_def)
  also have "\<dots> = pow2 (ulp_exp x) * 2 ^ 53"
    by (simp add: pow2_add pow2_def [of 53])
  finally have "x / pow2 (ulp_exp x) \<le> of_int (2 ^ 53)"
    by (simp add: divide_le_eq mult.commute)
  then have "round_half_even (x / pow2 (ulp_exp x)) \<le> 2 ^ 53"
    by (rule round_half_even_le_int)
  then have "(of_int (round_half_even (x / pow2 (ulp_exp x))) :: rat) \<le> of_int (2 ^ 53)"
    by (simp only: of_int_le_iff)
  then have "of_int (round_half_even (x / pow2 (ulp_exp x))) * pow2 (ulp_exp x)
      \<le> 2 ^ 53 * pow2 (ulp_exp x)"
    by (intro mult_right_mono) (simp_all add: less_imp_le)
  then show ?thesis
    using x by (simp add: round_rat_def Let_def pow2_add pow2_def [of 53] mult.commute)
qed

lemma round_rat_lower:
  "0 < x \<Longrightarrow> - 1074 < ulp_exp x \<Longrightarrow> pow2 (ulp_exp x + 52) \<le> round_rat x"
proof -
  assume x: "0 < x" and e: "- 1074 < ulp_exp x"
  have "pow2 (ulp_exp x) * 2 ^ 52 = pow2 (ulp_exp x + 52)"
    by (simp add: pow2_add pow2_def [of 52])
  also have "\<dots> = pow2 (rat_exp x)"
    using x e by (simp add: ulp_exp_def)
  also have "\<dots> \<le> x" using rat_exp_bounds [OF x] by simp
  finally have "of_int (2 ^ 52) \<le> x / pow2 (ulp_exp x)"
    by (simp add: le_divide_eq mult.commute)
  then have "2 ^ 52 \<le> round_half_even (x / pow2 (ulp_exp x))"
    by (rule round_half_even_ge_int)
  then have "(of_int (2 ^ 52) :: rat) \<le> of_int (round_half_even (x / pow2 (ulp_exp x)))"
    by (simp only: of_int_le_iff)
  then have "2 ^ 52 * pow2 (ulp_exp x)
      \<le> of_int (round_half_even (x / pow2 (ulp_exp x))) * pow2 (ulp_exp x)"
    by (intro mult_right_mono) (simp_all add: less_imp_le)
  then show ?thesis
    using x by (simp add: round_rat_def Let_def pow2_add pow2_def [of 52] mult.commute)
qed

lemma round_rat_mono_pos:
  assumes x: "0 < x" and xy: "x \<le> y"
  shows "round_rat x \<le> round_rat y"
proof (cases "ulp_exp x = ulp_exp y")
  case True
  have "x / pow2 (ulp_exp x) \<le> y / pow2 (ulp_exp x)"
    using xy by (simp add: divide_right_mono less_imp_le)
  then have "(of_int (round_half_even (x / pow2 (ulp_exp x))) :: rat)
      \<le> of_int (round_half_even (y / pow2 (ulp_exp x)))"
    using round_half_even_mono by simp
  then show ?thesis
    using x xy True by (simp add: round_rat_def Let_def)
next
  case False
  have "ulp_exp x \<le> ulp_exp y"
    using rat_exp_mono [OF x xy] x xy by (simp add: ulp_exp_def)
  with False have lt: "ulp_exp x < ulp_exp y" by simp
  have "round_rat x \<le> pow2 (ulp_exp x + 53)" using round_rat_upper [OF x] .
  also have "\<dots> \<le> pow2 (ulp_exp y + 52)" using lt by (intro pow2_mono) simp
  also have "\<dots> \<le> round_rat y"
  proof (rule round_rat_lower)
    show "0 < y" using x xy by simp
    show "- 1074 < ulp_exp y" using lt by (simp add: ulp_exp_def)
  qed
  finally show ?thesis .
qed

lemma round_rat_mono: "x \<le> y \<Longrightarrow> round_rat x \<le> round_rat y"
proof -
  assume xy: "x \<le> y"
  consider "0 < x" | "x \<le> 0" "0 \<le> y" | "y < 0" by linarith
  then show ?thesis
  proof cases
    case 1
    then show ?thesis using xy by (rule round_rat_mono_pos)
  next
    case 2
    then show ?thesis
      using round_rat_nonneg [of y] round_rat_nonneg [of "- x"] by (simp add: round_rat_minus)
  next
    case 3
    then show ?thesis
      using xy round_rat_mono_pos [of "- y" "- x"] by (simp add: round_rat_minus)
  qed
qed

text \<open>Values with at most 53 significant bits are represented exactly.\<close>

lemma round_rat_grid:
  assumes "x = of_int j * pow2 (ulp_exp x)"
  shows "round_rat x = x"
proof -
  have "x / pow2 (ulp_exp x) = of_int j"
    by (subst assms) simp
  then have "round_half_even (x / pow2 (ulp_exp x)) = j" by simp
  then show ?thesis using assms by (simp add: round_rat_def Let_def)
qed

lemma round_rat_exact_pos:
  assumes x: "x = of_int m * pow2 e" and m: "0 < m" "m \<le> 2 ^ 53" and e: "- 1074 \<le> e"
  shows "round_rat x = x"
proof (cases "ulp_exp x \<le> e")
  case True
  then obtain k where k: "e = ulp_exp x + int k"
    by (metis zle_iff_zadd)
  have "x = of_int (m * 2 ^ k) * pow2 (ulp_exp x)"
    by (subst x, subst k) (simp add: pow2_add pow2_nat)
  then show ?thesis by (rule round_rat_grid)
next
  case False
  have pos: "0 < x" using x m by simp
  with False e have ulp: "ulp_exp x = rat_exp x - 52" and gt: "e + 53 \<le> rat_exp x"
    by (auto simp: ulp_exp_def)
  have "2 ^ 53 * pow2 e = pow2 (e + 53)" by (simp add: pow2_add pow2_def [of 53])
  also have "\<dots> \<le> pow2 (rat_exp x)" using gt by (rule pow2_mono)
  also have "\<dots> \<le> x" using rat_exp_bounds [OF pos] by simp
  finally have "(of_int (2 ^ 53) :: rat) \<le> of_int m" by (simp add: x)
  then have "m = 2 ^ 53" using m(2) by (simp only: of_int_le_iff)
  then have xp: "x = pow2 (e + 53)" by (simp add: x pow2_add pow2_def [of 53])
  have "rat_exp x = e + 53"
    by (rule rat_exp_unique) (simp_all add: xp pow2_less_iff)
  then have "ulp_exp x = e + 1" using ulp by simp
  moreover have "pow2 (e + 53) = of_int (2 ^ 52) * pow2 (e + 1)"
    using pow2_add [of 52 "e + 1"] by (simp add: pow2_def [of 52] add.commute)
  ultimately have "x = of_int (2 ^ 52) * pow2 (ulp_exp x)"
    by (simp only: xp)
  then show ?thesis by (rule round_rat_grid)
qed

lemma round_rat_exact:
  assumes x: "x = of_int m * pow2 e" and m: "\<bar>m\<bar> \<le> 2 ^ 53" and e: "- 1074 \<le> e"
  shows "round_rat x = x"
proof -
  consider "m = 0" | "0 < m" | "m < 0" by linarith
  then show ?thesis
  proof cases
    case 1
    then show ?thesis using x by simp
  next
    case 2
    then show ?thesis using x m e round_rat_exact_pos [of x m e] by simp
  next
    case 3
    then show ?thesis using x m e round_rat_exact_pos [of "- x" "- m" e]
      by (simp add: round_rat_minus)
  qed
qed

lemma round_rat_int: "\<bar>n\<bar> \<le> 2 ^ 53 \<Longrightarrow> round_rat (of_int n) = of_int n"
  by (rule round_rat_exact [where m = n and e = 0]) (simp_all add: pow2_def)

text \<open>A rounded value is representable.\<close>

definition representable :: "rat \<Rightarrow> bool" where
  "representable x \<longleftrightarrow> round_rat x = x"

lemma representable_round: "representable (round_rat x)"
proof -
  have rep: "representable (round_rat x)" if "0 < x" for x
  proof -
    define m where "m = round_half_even (x / pow2 (ulp_exp x))"
    have val: "round_rat x = of_int m * pow2 (ulp_exp x)"
      using that by (simp add: round_rat_def Let_def m_def)
    have "of_int m * pow2 (ulp_exp x) \<le> 2 ^ 53 * pow2 (ulp_exp x)"
      using round_rat_upper [OF that] by (simp add: val pow2_add pow2_def [of 53] mult.commute)
    then have "(of_int m :: rat) \<le> of_int (2 ^ 53)" by simp
    then have "m \<le> 2 ^ 53" by (simp only: of_int_le_iff)
    moreover have "0 \<le> m" unfolding m_def
      by (rule round_half_even_ge_int) (use that in \<open>simp add: less_imp_le\<close>)
    ultimately show ?thesis
      unfolding representable_def
      by (intro round_rat_exact [OF val]) (simp_all add: ulp_exp_def)
  qed
  consider "x = 0" | "0 < x" | "0 < - x" by linarith
  then show ?thesis
  proof cases
    case 1
    then show ?thesis by (simp add: representable_def)
  next
    case 2
    then show ?thesis by (rule rep)
  next
    case 3
    then show ?thesis using rep [of "- x"] by (simp add: representable_def round_rat_minus)
  qed
qed

lemma round_rat_le: "representable y \<Longrightarrow> x \<le> y \<Longrightarrow> round_rat x \<le> y"
  using round_rat_mono [of x y] by (simp add: representable_def)

lemma round_rat_ge: "representable y \<Longrightarrow> y \<le> x \<Longrightarrow> y \<le> round_rat x"
  using round_rat_mono [of y x] by (simp add: representable_def)

section \<open>Facts the components use\<close>

lemma f64_round_Fin: "\<bar>round_rat x\<bar> < 2 ^ 1024 \<Longrightarrow> f64_round x = Fin (round_rat x)"
  by (auto simp: f64_round_def Let_def)

lemma f64_round_mono: "x \<le> y \<Longrightarrow> f64_round x \<le> f64_round y"
  using round_rat_mono [of x y]
  by (auto simp: f64_round_def Let_def less_eq_f64_def)

lemma f64_to_int_sat_bounds: "0 \<le> m \<Longrightarrow> 0 \<le> f64_to_int_sat m x \<and> f64_to_int_sat m x \<le> m"
  by (cases x) auto

lemma f64_to_int_sat_mono: "0 \<le> m \<Longrightarrow> x \<le> y \<Longrightarrow> f64_to_int_sat m x \<le> f64_to_int_sat m y"
  by (cases x; cases y)
    (auto simp: less_eq_f64_def intro!: min.mono max.mono floor_mono min.coboundedI2)

lemma uint_f64_as_u64: "uint (f64_as_u64 x) = f64_to_int_sat (2 ^ 64 - 1) x"
  using f64_to_int_sat_bounds [of "2 ^ 64 - 1" x]
  by (simp add: f64_as_u64_def word_uint_eq_iff uint_word_of_int)

lemma f64_as_u64_mono: "x \<le> y \<Longrightarrow> f64_as_u64 x \<le> f64_as_u64 y"
  unfolding word_le_def uint_f64_as_u64 by (rule f64_to_int_sat_mono) simp_all

text \<open>Evaluation of a rounding at a value whose binary exponent is known.\<close>

lemma round_rat_eval:
  assumes "pow2 k \<le> x" and "x < pow2 (k + 1)" and "- 1022 \<le> k"
  shows "round_rat x = of_int (round_half_even (x / pow2 (k - 52))) * pow2 (k - 52)"
proof -
  have "0 < x" using assms(1) pow2_pos [of k] by linarith
  then show ?thesis
    using assms(3) rat_exp_unique [OF assms(1,2)] by (simp add: round_rat_def ulp_exp_def Let_def)
qed

end
