(* ===== verification/Json.thy ===== *)
theory Json
  imports F64
begin

text \<open>
  JSON values and the (de)serialisation of the program's field types. The program derives its
  JSON codecs with \<open>serde\<close>; the value a derived codec produces or accepts is fixed by the
  type and its attributes, and that value level is what this theory provides: integers with
  their range checks, doubles (a non-finite double is written as \<open>null\<close>), strings, arrays,
  and objects as field lists in which a known field may occur at most once. The text level
  (\<open>serde_json\<close>'s printer and parser) is a parameter of the development, see
  \<open>json_text\<close>.
\<close>

datatype json =
    JNull
  | JBool bool
  | JInt int
  | JFloat f64
  | JStr string
  | JArr "json list"
  | JObj "(string \<times> json) list"

type_synonym jfields = "(string \<times> json) list"

text \<open>
  The text level: printing a value (\<open>serde_json::to_vec\<close>, which may fail) and parsing bytes
  (\<open>serde_json::from_slice\<close>).
\<close>

record json_text =
  jt_print :: "json \<Rightarrow> bytes option"
  jt_parse :: "bytes \<Rightarrow> json option"

text \<open>The one law the components rely on, at the values they exchange.\<close>

definition prints :: "json_text \<Rightarrow> json \<Rightarrow> bytes \<Rightarrow> bool" where
  "prints J v bs \<longleftrightarrow> jt_print J v = Some bs \<and> jt_parse J bs = Some v"

section \<open>Fields of an object\<close>

text \<open>
  \<open>jfield k fs\<close>: \<open>None\<close> when \<open>k\<close> occurs twice (serde reports a duplicate field),
  \<open>Some None\<close> when it is missing.
\<close>

definition jfield :: "string \<Rightarrow> jfields \<Rightarrow> json option option" where
  "jfield k fs =
     (case filter (\<lambda>p. fst p = k) fs of
        [] \<Rightarrow> Some None
      | [p] \<Rightarrow> Some (Some (snd p))
      | _ \<Rightarrow> None)"

definition req :: "string \<Rightarrow> (json \<Rightarrow> 'a option) \<Rightarrow> jfields \<Rightarrow> 'a option" where
  "req k d fs = (case jfield k fs of Some (Some v) \<Rightarrow> d v | _ \<Rightarrow> None)"

text \<open>An optional field: missing or \<open>null\<close> is \<open>None\<close>.\<close>

definition opt :: "string \<Rightarrow> (json \<Rightarrow> 'a option) \<Rightarrow> jfields \<Rightarrow> 'a option option" where
  "opt k d fs =
     (case jfield k fs of
        None \<Rightarrow> None
      | Some None \<Rightarrow> Some None
      | Some (Some JNull) \<Rightarrow> Some None
      | Some (Some v) \<Rightarrow> map_option Some (d v))"

fun dec_obj :: "(jfields \<Rightarrow> 'a option) \<Rightarrow> json \<Rightarrow> 'a option" where
  "dec_obj d (JObj fs) = d fs"
| "dec_obj d _ = None"

section \<open>Scalars\<close>

fun dec_uint :: "json \<Rightarrow> 'a::len word option" where
  "dec_uint (JInt n) =
     (if 0 \<le> n \<and> n < 2 ^ LENGTH('a) then Some (word_of_int n) else None)"
| "dec_uint _ = None"

definition enc_uint :: "'a::len word \<Rightarrow> json" where
  "enc_uint w = JInt (uint w)"

fun dec_f64 :: "json \<Rightarrow> f64 option" where
  "dec_f64 (JFloat x) = Some x"
| "dec_f64 (JInt n) = Some (f64_of_int n)"
| "dec_f64 _ = None"

fun enc_f64 :: "f64 \<Rightarrow> json" where
  "enc_f64 (Fin q) = JFloat (Fin q)"
| "enc_f64 _ = JNull"

definition f64_finite :: "f64 \<Rightarrow> bool" where
  "f64_finite x \<longleftrightarrow> (case x of Fin q \<Rightarrow> True | _ \<Rightarrow> False)"

fun dec_str :: "json \<Rightarrow> string option" where
  "dec_str (JStr s) = Some s"
| "dec_str _ = None"

fun dec_bool :: "json \<Rightarrow> bool option" where
  "dec_bool (JBool b) = Some b"
| "dec_bool _ = None"

fun traverse :: "('a \<Rightarrow> 'b option) \<Rightarrow> 'a list \<Rightarrow> 'b list option" where
  "traverse d [] = Some []"
| "traverse d (x # xs) =
     (case d x of
        None \<Rightarrow> None
      | Some y \<Rightarrow> map_option (\<lambda>ys. y # ys) (traverse d xs))"

fun dec_arr :: "(json \<Rightarrow> 'a option) \<Rightarrow> json \<Rightarrow> 'a list option" where
  "dec_arr d (JArr vs) = traverse d vs"
| "dec_arr d _ = None"

text \<open>A unit-variant enum: a string out of a table.\<close>

fun dec_enum :: "(string \<times> 'a) list \<Rightarrow> json \<Rightarrow> 'a option" where
  "dec_enum tab (JStr s) = map_of tab s"
| "dec_enum tab _ = None"

section \<open>Round trips of the scalars\<close>

named_theorems json_simps \<open>decoding inverts encoding\<close>

lemma dec_enc_uint [simp]: "dec_uint (enc_uint w) = Some w"
  by (simp add: enc_uint_def)

lemma dec_uint_uint [simp]: "dec_uint (JInt (uint w)) = Some w"
  by (simp flip: enc_uint_def)

declare dec_uint.simps(1) [simp del]

lemma dec_enc_f64 [simp]: "f64_finite x \<Longrightarrow> dec_f64 (enc_f64 x) = Some x"
  by (cases x) (simp_all add: f64_finite_def)

lemma dec_enc_f64_None: "\<not> f64_finite x \<Longrightarrow> dec_f64 (enc_f64 x) = None"
  by (cases x) (simp_all add: f64_finite_def)

lemma traverse_map:
  "(\<And>x. x \<in> set xs \<Longrightarrow> d (e x) = Some x) \<Longrightarrow> traverse d (map e xs) = Some xs"
  by (induction xs) auto

lemma dec_arr_map [json_simps]:
  "(\<And>x. x \<in> set xs \<Longrightarrow> d (e x) = Some x) \<Longrightarrow> dec_arr d (JArr (map e xs)) = Some xs"
  by (simp add: traverse_map)

section \<open>Lookups\<close>

lemma jfield_Nil [simp]: "jfield k [] = Some None"
  by (simp add: jfield_def)

lemma jfield_Cons_neq [simp]: "k' \<noteq> k \<Longrightarrow> jfield k ((k', v) # fs) = jfield k fs"
  by (simp add: jfield_def)

lemma jfield_absent: "k \<notin> fst ` set fs \<Longrightarrow> jfield k fs = Some None"
  by (induction fs) auto

lemma jfield_Cons_eq [simp]: "k \<notin> fst ` set fs \<Longrightarrow> jfield k ((k, v) # fs) = Some (Some v)"
proof -
  assume "k \<notin> fst ` set fs"
  then have "filter (\<lambda>p. fst p = k) fs = []" by (auto simp: filter_empty_conv)
  then show ?thesis by (simp add: jfield_def)
qed

lemma jfield_append_absent: "k \<notin> fst ` set gs \<Longrightarrow> jfield k (gs @ fs) = jfield k fs"
  by (induction gs) auto

section \<open>A text codec over a finite table\<close>

text \<open>
  A concrete text level for examples: the printer writes the position of a value in a
  table of at most 256 values as one byte, the parser reads it back.
\<close>

fun index_of :: "'a \<Rightarrow> 'a list \<Rightarrow> nat option" where
  "index_of x [] = None"
| "index_of x (y # ys) = (if x = y then Some 0 else map_option Suc (index_of x ys))"

definition table_text :: "json list \<Rightarrow> json_text" where
  "table_text vs =
     \<lparr> jt_print = (\<lambda>v. map_option (\<lambda>i. [word_of_nat i]) (index_of v vs)),
       jt_parse = (\<lambda>bs. case bs of [b] \<Rightarrow> if unat b < length vs then Some (vs ! unat b) else None
                         | _ \<Rightarrow> None) \<rparr>"

lemma index_of_Some: "x \<in> set xs \<Longrightarrow> \<exists>i. index_of x xs = Some i \<and> i < length xs \<and> xs ! i = x"
proof (induction xs)
  case (Cons y ys)
  then show ?case by (cases "x = y") auto
qed simp

lemma table_prints:
  assumes "v \<in> set vs" and "length vs \<le> 256"
  shows "\<exists>b. jt_print (table_text vs) v = Some [b] \<and> prints (table_text vs) v [b]"
proof -
  obtain i where i: "index_of v vs = Some i" "i < length vs" "vs ! i = v"
    using index_of_Some [OF assms(1)] by blast
  moreover have "unat (word_of_nat i :: u8) = i"
    using i(2) assms(2) by (simp add: unat_of_nat)
  ultimately show ?thesis by (simp add: prints_def table_text_def)
qed

end
