(* ===== verification/Ccp_Json.thy ===== *)
theory Ccp_Json
  imports Ccp_Control "HOL-Library.Monad_Syntax"
begin

text \<open>
  The JSON objects of the control messages: for every Rust type of
  \<open>crates/ccp-protocol/src/control/\<close> the object its derived \<open>Serialize\<close> writes and the one
  its derived \<open>Deserialize\<close> accepts, with the field names its \<open>rename_all\<close> attribute gives;
  the tag \<open>t\<close>, the flattened envelope and the untagged \<open>Auth\<close>. An object field may come in
  any order, unknown fields are ignored, a missing or repeated known field is an error.
\<close>

section \<open>Unit-variant enums\<close>

fun error_code_str :: "error_code \<Rightarrow> string" where
  "error_code_str IncompatibleVersion = ''incompatible_version''"
| "error_code_str EcUnauthorized = ''unauthorized''"
| "error_code_str BadRequest = ''bad_request''"
| "error_code_str UnsupportedMode = ''unsupported_mode''"
| "error_code_str CameraUnavailable = ''camera_unavailable''"
| "error_code_str Internal = ''internal''"
| "error_code_str EcTimeout = ''timeout''"

definition error_code_names :: "(string \<times> error_code) list" where
  "error_code_names = map (\<lambda>c. (error_code_str c, c)) [IncompatibleVersion, EcUnauthorized, BadRequest, UnsupportedMode, CameraUnavailable, Internal, EcTimeout]"

fun battery_state_str :: "battery_state \<Rightarrow> string" where
  "battery_state_str BatUnknown = ''unknown''"
| "battery_state_str BatUnplugged = ''unplugged''"
| "battery_state_str BatCharging = ''charging''"
| "battery_state_str BatFull = ''full''"

definition battery_state_names :: "(string \<times> battery_state) list" where
  "battery_state_names = map (\<lambda>c. (battery_state_str c, c)) [BatUnknown, BatUnplugged, BatCharging, BatFull]"

fun thermal_state_str :: "thermal_state \<Rightarrow> string" where
  "thermal_state_str ThNominal = ''nominal''"
| "thermal_state_str ThFair = ''fair''"
| "thermal_state_str ThSerious = ''serious''"
| "thermal_state_str ThCritical = ''critical''"

definition thermal_state_names :: "(string \<times> thermal_state) list" where
  "thermal_state_names = map (\<lambda>c. (thermal_state_str c, c)) [ThNominal, ThFair, ThSerious, ThCritical]"

fun camera_position_str :: "camera_position \<Rightarrow> string" where
  "camera_position_str Front = ''front''"
| "camera_position_str Back = ''back''"

definition camera_position_names :: "(string \<times> camera_position) list" where
  "camera_position_names = map (\<lambda>c. (camera_position_str c, c)) [Front, Back]"

fun format_kind_str :: "format_kind \<Rightarrow> string" where
  "format_kind_str FmtRaw = ''raw''"
| "format_kind_str FmtEncoded = ''encoded''"

definition format_kind_names :: "(string \<times> format_kind) list" where
  "format_kind_names = map (\<lambda>c. (format_kind_str c, c)) [FmtRaw, FmtEncoded]"

fun codec_name_str :: "codec_name \<Rightarrow> string" where
  "codec_name_str CnNone = ''none''"
| "codec_name_str CnHevc = ''hevc''"
| "codec_name_str CnH264 = ''h264''"

definition codec_name_names :: "(string \<times> codec_name) list" where
  "codec_name_names = map (\<lambda>c. (codec_name_str c, c)) [CnNone, CnHevc, CnH264]"

fun pixel_format_str :: "pixel_format \<Rightarrow> string" where
  "pixel_format_str Nv12 = ''nv12''"

definition pixel_format_names :: "(string \<times> pixel_format) list" where
  "pixel_format_names = map (\<lambda>c. (pixel_format_str c, c)) [Nv12]"

fun speedtest_pattern_str :: "speedtest_pattern \<Rightarrow> string" where
  "speedtest_pattern_str Ramp = ''ramp''"

definition speedtest_pattern_names :: "(string \<times> speedtest_pattern) list" where
  "speedtest_pattern_names = map (\<lambda>c. (speedtest_pattern_str c, c)) [Ramp]"

section \<open>Structs\<close>

definition enc_device_ident :: "device_ident \<Rightarrow> jfields" where
  "enc_device_ident x = [
     (''model'', JStr (di_model x)),
     (''osVer'', JStr (di_os_ver x))]"

definition dec_device_ident :: "jfields \<Rightarrow> device_ident option" where
  "dec_device_ident fs = do {
     v0 \<leftarrow> req ''model'' dec_str fs;
     v1 \<leftarrow> req ''osVer'' dec_str fs;
     Some \<lparr> di_model = v0, di_os_ver = v1 \<rparr> }"

definition enc_hello :: "hello \<Rightarrow> jfields" where
  "enc_hello x = [
     (''protoVer'', enc_uint (hl_proto_ver x)),
     (''app'', JStr (hl_app x)),
     (''device'', JObj (enc_device_ident (hl_device x))),
     (''sessionId'', JStr (hl_session_id x)),
     (''caps'', JArr (map enc_cap (hl_caps x)))]"

definition dec_hello :: "jfields \<Rightarrow> hello option" where
  "dec_hello fs = do {
     v0 \<leftarrow> req ''protoVer'' dec_uint fs;
     v1 \<leftarrow> req ''app'' dec_str fs;
     v2 \<leftarrow> req ''device'' (dec_obj dec_device_ident) fs;
     v3 \<leftarrow> req ''sessionId'' dec_str fs;
     v4 \<leftarrow> req ''caps'' (dec_arr dec_cap) fs;
     Some \<lparr> hl_proto_ver = v0, hl_app = v1, hl_device = v2, hl_session_id = v3, hl_caps = v4 \<rparr> }"

definition enc_hello_ack :: "hello_ack \<Rightarrow> jfields" where
  "enc_hello_ack x = [
     (''protoVer'', enc_uint (ha_proto_ver x)),
     (''caps'', JArr (map enc_cap (ha_caps x)))]"

definition dec_hello_ack :: "jfields \<Rightarrow> hello_ack option" where
  "dec_hello_ack fs = do {
     v0 \<leftarrow> req ''protoVer'' dec_uint fs;
     v1 \<leftarrow> req ''caps'' (dec_arr dec_cap) fs;
     Some \<lparr> ha_proto_ver = v0, ha_caps = v1 \<rparr> }"

definition enc_auth_ok :: "auth_ok \<Rightarrow> jfields" where
  "enc_auth_ok x = [
     (''sessionId'', JStr (ao_session_id x))]"

definition dec_auth_ok :: "jfields \<Rightarrow> auth_ok option" where
  "dec_auth_ok fs = do {
     v0 \<leftarrow> req ''sessionId'' dec_str fs;
     Some \<lparr> ao_session_id = v0 \<rparr> }"

definition enc_media_hello :: "media_hello \<Rightarrow> jfields" where
  "enc_media_hello x = [
     (''sessionId'', JStr (mhl_session_id x)),
     (''token'', JStr (mhl_token x))]"

definition dec_media_hello :: "jfields \<Rightarrow> media_hello option" where
  "dec_media_hello fs = do {
     v0 \<leftarrow> req ''sessionId'' dec_str fs;
     v1 \<leftarrow> req ''token'' dec_str fs;
     Some \<lparr> mhl_session_id = v0, mhl_token = v1 \<rparr> }"

definition enc_bye :: "bye \<Rightarrow> jfields" where
  "enc_bye x = [
     (''reason'', JStr (by_reason x))]"

definition dec_bye :: "jfields \<Rightarrow> bye option" where
  "dec_bye fs = do {
     v0 \<leftarrow> req ''reason'' dec_str fs;
     Some \<lparr> by_reason = v0 \<rparr> }"

definition enc_error_msg :: "error_msg \<Rightarrow> jfields" where
  "enc_error_msg x = [
     (''code'', JStr (error_code_str (em_code x))),
     (''message'', JStr (em_message x))]"

definition dec_error_msg :: "jfields \<Rightarrow> error_msg option" where
  "dec_error_msg fs = do {
     v0 \<leftarrow> req ''code'' (dec_enum error_code_names) fs;
     v1 \<leftarrow> req ''message'' dec_str fs;
     Some \<lparr> em_code = v0, em_message = v1 \<rparr> }"

definition enc_device_info :: "device_info \<Rightarrow> jfields" where
  "enc_device_info x = [
     (''model'', JStr (dv_model x)),
     (''osVer'', JStr (dv_os_ver x)),
     (''batteryLevel'', enc_f64 (dv_battery_level x)),
     (''batteryState'', JStr (battery_state_str (dv_battery_state x))),
     (''thermalState'', JStr (thermal_state_str (dv_thermal_state x))),
     (''usb3Capable'', JBool (dv_usb3_capable x))]"

definition dec_device_info :: "jfields \<Rightarrow> device_info option" where
  "dec_device_info fs = do {
     v0 \<leftarrow> req ''model'' dec_str fs;
     v1 \<leftarrow> req ''osVer'' dec_str fs;
     v2 \<leftarrow> req ''batteryLevel'' dec_f64 fs;
     v3 \<leftarrow> req ''batteryState'' (dec_enum battery_state_names) fs;
     v4 \<leftarrow> req ''thermalState'' (dec_enum thermal_state_names) fs;
     v5 \<leftarrow> req ''usb3Capable'' dec_bool fs;
     Some \<lparr> dv_model = v0, dv_os_ver = v1, dv_battery_level = v2, dv_battery_state = v3, dv_thermal_state = v4, dv_usb3_capable = v5 \<rparr> }"

definition enc_camera_entry :: "camera_entry \<Rightarrow> jfields" where
  "enc_camera_entry x = [
     (''id'', JStr (ce_id x)),
     (''name'', JStr (ce_name x)),
     (''position'', JStr (camera_position_str (ce_position x))),
     (''maxWidth'', enc_uint (ce_max_width x)),
     (''maxHeight'', enc_uint (ce_max_height x)),
     (''maxFps'', enc_uint (ce_max_fps x)),
     (''supportedFormats'', JArr (map JStr (ce_supported_formats x)))]"

definition dec_camera_entry :: "jfields \<Rightarrow> camera_entry option" where
  "dec_camera_entry fs = do {
     v0 \<leftarrow> req ''id'' dec_str fs;
     v1 \<leftarrow> req ''name'' dec_str fs;
     v2 \<leftarrow> req ''position'' (dec_enum camera_position_names) fs;
     v3 \<leftarrow> req ''maxWidth'' dec_uint fs;
     v4 \<leftarrow> req ''maxHeight'' dec_uint fs;
     v5 \<leftarrow> req ''maxFps'' dec_uint fs;
     v6 \<leftarrow> req ''supportedFormats'' (dec_arr dec_str) fs;
     Some \<lparr> ce_id = v0, ce_name = v1, ce_position = v2, ce_max_width = v3, ce_max_height = v4, ce_max_fps = v5, ce_supported_formats = v6 \<rparr> }"

definition enc_camera_list :: "camera_list \<Rightarrow> jfields" where
  "enc_camera_list x = [
     (''cameras'', JArr (map (\<lambda>x. JObj (enc_camera_entry x)) (cl_cameras x)))]"

definition dec_camera_list :: "jfields \<Rightarrow> camera_list option" where
  "dec_camera_list fs = do {
     v0 \<leftarrow> req ''cameras'' (dec_arr (dec_obj dec_camera_entry)) fs;
     Some \<lparr> cl_cameras = v0 \<rparr> }"

definition enc_set_camera_msg :: "set_camera_msg \<Rightarrow> jfields" where
  "enc_set_camera_msg x = [
     (''cameraId'', JStr (sc_camera_id x))]"

definition dec_set_camera_msg :: "jfields \<Rightarrow> set_camera_msg option" where
  "dec_set_camera_msg fs = do {
     v0 \<leftarrow> req ''cameraId'' dec_str fs;
     Some \<lparr> sc_camera_id = v0 \<rparr> }"

definition enc_camera_state :: "camera_state \<Rightarrow> jfields" where
  "enc_camera_state x = [
     (''activeCameraId'', JStr (cs_active_camera_id x)),
     (''appliedFormat'', JStr (cs_applied_format x))]"

definition dec_camera_state :: "jfields \<Rightarrow> camera_state option" where
  "dec_camera_state fs = do {
     v0 \<leftarrow> req ''activeCameraId'' dec_str fs;
     v1 \<leftarrow> req ''appliedFormat'' dec_str fs;
     Some \<lparr> cs_active_camera_id = v0, cs_applied_format = v1 \<rparr> }"

definition enc_mode :: "mode \<Rightarrow> jfields" where
  "enc_mode x = [
     (''format'', JStr (format_kind_str (md_format x))),
     (''codec'', JStr (codec_name_str (md_codec x))),
     (''width'', enc_uint (md_width x)),
     (''height'', enc_uint (md_height x)),
     (''fps'', enc_uint (md_fps x)),
     (''bitrateKbps'', enc_uint (md_bitrate_kbps x)),
     (''pixelFormat'', JStr (pixel_format_str (md_pixel_format x))),
     (''fullRange'', JBool (md_full_range x))]"

definition dec_mode :: "jfields \<Rightarrow> mode option" where
  "dec_mode fs = do {
     v0 \<leftarrow> req ''format'' (dec_enum format_kind_names) fs;
     v1 \<leftarrow> req ''codec'' (dec_enum codec_name_names) fs;
     v2 \<leftarrow> req ''width'' dec_uint fs;
     v3 \<leftarrow> req ''height'' dec_uint fs;
     v4 \<leftarrow> req ''fps'' dec_uint fs;
     v5 \<leftarrow> req ''bitrateKbps'' dec_uint fs;
     v6 \<leftarrow> req ''pixelFormat'' (dec_enum pixel_format_names) fs;
     v7 \<leftarrow> req ''fullRange'' dec_bool fs;
     Some \<lparr> md_format = v0, md_codec = v1, md_width = v2, md_height = v3, md_fps = v4, md_bitrate_kbps = v5, md_pixel_format = v6, md_full_range = v7 \<rparr> }"

definition enc_start_msg :: "start_msg \<Rightarrow> jfields" where
  "enc_start_msg x = [
     (''mode'', JObj (enc_mode (st_mode x)))]"

definition dec_start_msg :: "jfields \<Rightarrow> start_msg option" where
  "dec_start_msg fs = do {
     v0 \<leftarrow> req ''mode'' (dec_obj dec_mode) fs;
     Some \<lparr> st_mode = v0 \<rparr> }"

definition enc_set_mode_msg :: "set_mode_msg \<Rightarrow> jfields" where
  "enc_set_mode_msg x = [
     (''mode'', JObj (enc_mode (sm_mode x)))]"

definition dec_set_mode_msg :: "jfields \<Rightarrow> set_mode_msg option" where
  "dec_set_mode_msg fs = do {
     v0 \<leftarrow> req ''mode'' (dec_obj dec_mode) fs;
     Some \<lparr> sm_mode = v0 \<rparr> }"

definition enc_mode_applied :: "mode_applied \<Rightarrow> jfields" where
  "enc_mode_applied x = [
     (''mode'', JObj (enc_mode (ma_mode x))),
     (''atSeq'', enc_uint (ma_at_seq x))]"

definition dec_mode_applied :: "jfields \<Rightarrow> mode_applied option" where
  "dec_mode_applied fs = do {
     v0 \<leftarrow> req ''mode'' (dec_obj dec_mode) fs;
     v1 \<leftarrow> req ''atSeq'' dec_uint fs;
     Some \<lparr> ma_mode = v0, ma_at_seq = v1 \<rparr> }"

definition enc_telemetry :: "telemetry \<Rightarrow> jfields" where
  "enc_telemetry x = [
     (''tsUsec'', enc_uint (tm_ts_usec x)),
     (''batteryLevel'', enc_f64 (tm_battery_level x)),
     (''batteryState'', JStr (battery_state_str (tm_battery_state x))),
     (''thermalState'', JStr (thermal_state_str (tm_thermal_state x))),
     (''sentBitrateKbps'', enc_uint (tm_sent_bitrate_kbps x)),
     (''encFps'', enc_uint (tm_enc_fps x)),
     (''captureFps'', enc_uint (tm_capture_fps x)),
     (''queueDepth'', enc_uint (tm_queue_depth x)),
     (''dropCount'', enc_uint (tm_drop_count x))]"

definition dec_telemetry :: "jfields \<Rightarrow> telemetry option" where
  "dec_telemetry fs = do {
     v0 \<leftarrow> req ''tsUsec'' dec_uint fs;
     v1 \<leftarrow> req ''batteryLevel'' dec_f64 fs;
     v2 \<leftarrow> req ''batteryState'' (dec_enum battery_state_names) fs;
     v3 \<leftarrow> req ''thermalState'' (dec_enum thermal_state_names) fs;
     v4 \<leftarrow> req ''sentBitrateKbps'' dec_uint fs;
     v5 \<leftarrow> req ''encFps'' dec_uint fs;
     v6 \<leftarrow> req ''captureFps'' dec_uint fs;
     v7 \<leftarrow> req ''queueDepth'' dec_uint fs;
     v8 \<leftarrow> req ''dropCount'' dec_uint fs;
     Some \<lparr> tm_ts_usec = v0, tm_battery_level = v1, tm_battery_state = v2, tm_thermal_state = v3, tm_sent_bitrate_kbps = v4, tm_enc_fps = v5, tm_capture_fps = v6, tm_queue_depth = v7, tm_drop_count = v8 \<rparr> }"

definition enc_ping :: "ping \<Rightarrow> jfields" where
  "enc_ping x = [
     (''tsUsec'', enc_uint (pi_ts_usec x))]"

definition dec_ping :: "jfields \<Rightarrow> ping option" where
  "dec_ping fs = do {
     v0 \<leftarrow> req ''tsUsec'' dec_uint fs;
     Some \<lparr> pi_ts_usec = v0 \<rparr> }"

definition enc_pong :: "pong \<Rightarrow> jfields" where
  "enc_pong x = [
     (''tsUsec'', enc_uint (po_ts_usec x)),
     (''echoUsec'', enc_uint (po_echo_usec x))]"

definition dec_pong :: "jfields \<Rightarrow> pong option" where
  "dec_pong fs = do {
     v0 \<leftarrow> req ''tsUsec'' dec_uint fs;
     v1 \<leftarrow> req ''echoUsec'' dec_uint fs;
     Some \<lparr> po_ts_usec = v0, po_echo_usec = v1 \<rparr> }"

definition enc_speedtest_start :: "speedtest_start \<Rightarrow> jfields" where
  "enc_speedtest_start x = [
     (''id'', JStr (ss_id x)),
     (''targetBitrateKbps'', enc_uint (ss_target_bitrate_kbps x)),
     (''durationMs'', enc_uint (ss_duration_ms x)),
     (''pattern'', JStr (speedtest_pattern_str (ss_pattern x)))]"

definition dec_speedtest_start :: "jfields \<Rightarrow> speedtest_start option" where
  "dec_speedtest_start fs = do {
     v0 \<leftarrow> req ''id'' dec_str fs;
     v1 \<leftarrow> req ''targetBitrateKbps'' dec_uint fs;
     v2 \<leftarrow> req ''durationMs'' dec_uint fs;
     v3 \<leftarrow> req ''pattern'' (dec_enum speedtest_pattern_names) fs;
     Some \<lparr> ss_id = v0, ss_target_bitrate_kbps = v1, ss_duration_ms = v2, ss_pattern = v3 \<rparr> }"

definition enc_speedtest_tick :: "speedtest_tick \<Rightarrow> jfields" where
  "enc_speedtest_tick x = [
     (''id'', JStr (sk_id x)),
     (''tickIndex'', enc_uint (sk_tick_index x)),
     (''tsUsec'', enc_uint (sk_ts_usec x))]"

definition dec_speedtest_tick :: "jfields \<Rightarrow> speedtest_tick option" where
  "dec_speedtest_tick fs = do {
     v0 \<leftarrow> req ''id'' dec_str fs;
     v1 \<leftarrow> req ''tickIndex'' dec_uint fs;
     v2 \<leftarrow> req ''tsUsec'' dec_uint fs;
     Some \<lparr> sk_id = v0, sk_tick_index = v1, sk_ts_usec = v2 \<rparr> }"

definition enc_speedtest_result :: "speedtest_result \<Rightarrow> jfields" where
  "enc_speedtest_result x = [
     (''id'', JStr (sr_id x)),
     (''goodputMbps'', enc_f64 (sr_goodput_mbps x)),
     (''rttMs'', enc_f64 (sr_rtt_ms x)),
     (''jitterMs'', enc_f64 (sr_jitter_ms x)),
     (''lossPct'', enc_f64 (sr_loss_pct x)),
     (''recommendedMode'', JObj (enc_mode (sr_recommended_mode x)))]"

definition dec_speedtest_result :: "jfields \<Rightarrow> speedtest_result option" where
  "dec_speedtest_result fs = do {
     v0 \<leftarrow> req ''id'' dec_str fs;
     v1 \<leftarrow> req ''goodputMbps'' dec_f64 fs;
     v2 \<leftarrow> req ''rttMs'' dec_f64 fs;
     v3 \<leftarrow> req ''jitterMs'' dec_f64 fs;
     v4 \<leftarrow> req ''lossPct'' dec_f64 fs;
     v5 \<leftarrow> req ''recommendedMode'' (dec_obj dec_mode) fs;
     Some \<lparr> sr_id = v0, sr_goodput_mbps = v1, sr_rtt_ms = v2, sr_jitter_ms = v3, sr_loss_pct = v4, sr_recommended_mode = v5 \<rparr> }"

text \<open>\<open>Auth\<close> is untagged: the variants are tried in declaration order.\<close>

fun enc_auth :: "auth \<Rightarrow> jfields" where
  "enc_auth (AuthToken t) = [(''token'', JStr t)]"
| "enc_auth (AuthPairingKey k) = [(''pairingKey'', JStr k)]"

definition dec_auth :: "jfields \<Rightarrow> auth option" where
  "dec_auth fs =
     (case req ''token'' dec_str fs of
        Some t \<Rightarrow> Some (AuthToken t)
      | None \<Rightarrow> map_option AuthPairingKey (req ''pairingKey'' dec_str fs))"

section \<open>The tagged union\<close>

fun msg_tag :: "control_message \<Rightarrow> string" where
  "msg_tag (Hello x) = ''HELLO''"
| "msg_tag (HelloAck x) = ''HELLO_ACK''"
| "msg_tag (Auth x) = ''AUTH''"
| "msg_tag (AuthOk x) = ''AUTH_OK''"
| "msg_tag (MediaHello x) = ''MEDIA_HELLO''"
| "msg_tag (Bye x) = ''BYE''"
| "msg_tag (ErrorMsg x) = ''ERROR''"
| "msg_tag (DeviceInfo x) = ''DEVICE_INFO''"
| "msg_tag (CameraList x) = ''CAMERA_LIST''"
| "msg_tag (SetCamera x) = ''SET_CAMERA''"
| "msg_tag (CameraState x) = ''CAMERA_STATE''"
| "msg_tag (Start x) = ''START''"
| "msg_tag Stop = ''STOP''"
| "msg_tag (SetMode x) = ''SET_MODE''"
| "msg_tag (ModeApplied x) = ''MODE_APPLIED''"
| "msg_tag (Telemetry x) = ''TELEMETRY''"
| "msg_tag (Ping x) = ''PING''"
| "msg_tag (Pong x) = ''PONG''"
| "msg_tag (SpeedtestStart x) = ''SPEEDTEST_START''"
| "msg_tag (SpeedtestTick x) = ''SPEEDTEST_TICK''"
| "msg_tag (SpeedtestResult x) = ''SPEEDTEST_RESULT''"

fun enc_body :: "control_message \<Rightarrow> jfields" where
  "enc_body (Hello x) = enc_hello x"
| "enc_body (HelloAck x) = enc_hello_ack x"
| "enc_body (Auth x) = enc_auth x"
| "enc_body (AuthOk x) = enc_auth_ok x"
| "enc_body (MediaHello x) = enc_media_hello x"
| "enc_body (Bye x) = enc_bye x"
| "enc_body (ErrorMsg x) = enc_error_msg x"
| "enc_body (DeviceInfo x) = enc_device_info x"
| "enc_body (CameraList x) = enc_camera_list x"
| "enc_body (SetCamera x) = enc_set_camera_msg x"
| "enc_body (CameraState x) = enc_camera_state x"
| "enc_body (Start x) = enc_start_msg x"
| "enc_body Stop = []"
| "enc_body (SetMode x) = enc_set_mode_msg x"
| "enc_body (ModeApplied x) = enc_mode_applied x"
| "enc_body (Telemetry x) = enc_telemetry x"
| "enc_body (Ping x) = enc_ping x"
| "enc_body (Pong x) = enc_pong x"
| "enc_body (SpeedtestStart x) = enc_speedtest_start x"
| "enc_body (SpeedtestTick x) = enc_speedtest_tick x"
| "enc_body (SpeedtestResult x) = enc_speedtest_result x"

definition msg_decoders :: "(string \<times> (jfields \<Rightarrow> control_message option)) list" where
  "msg_decoders = [
     (''HELLO'', \<lambda>fs. map_option Hello (dec_hello fs)),
     (''HELLO_ACK'', \<lambda>fs. map_option HelloAck (dec_hello_ack fs)),
     (''AUTH'', \<lambda>fs. map_option Auth (dec_auth fs)),
     (''AUTH_OK'', \<lambda>fs. map_option AuthOk (dec_auth_ok fs)),
     (''MEDIA_HELLO'', \<lambda>fs. map_option MediaHello (dec_media_hello fs)),
     (''BYE'', \<lambda>fs. map_option Bye (dec_bye fs)),
     (''ERROR'', \<lambda>fs. map_option ErrorMsg (dec_error_msg fs)),
     (''DEVICE_INFO'', \<lambda>fs. map_option DeviceInfo (dec_device_info fs)),
     (''CAMERA_LIST'', \<lambda>fs. map_option CameraList (dec_camera_list fs)),
     (''SET_CAMERA'', \<lambda>fs. map_option SetCamera (dec_set_camera_msg fs)),
     (''CAMERA_STATE'', \<lambda>fs. map_option CameraState (dec_camera_state fs)),
     (''START'', \<lambda>fs. map_option Start (dec_start_msg fs)),
     (''STOP'', \<lambda>fs. Some Stop),
     (''SET_MODE'', \<lambda>fs. map_option SetMode (dec_set_mode_msg fs)),
     (''MODE_APPLIED'', \<lambda>fs. map_option ModeApplied (dec_mode_applied fs)),
     (''TELEMETRY'', \<lambda>fs. map_option Telemetry (dec_telemetry fs)),
     (''PING'', \<lambda>fs. map_option Ping (dec_ping fs)),
     (''PONG'', \<lambda>fs. map_option Pong (dec_pong fs)),
     (''SPEEDTEST_START'', \<lambda>fs. map_option SpeedtestStart (dec_speedtest_start fs)),
     (''SPEEDTEST_TICK'', \<lambda>fs. map_option SpeedtestTick (dec_speedtest_tick fs)),
     (''SPEEDTEST_RESULT'', \<lambda>fs. map_option SpeedtestResult (dec_speedtest_result fs))]"

definition enc_message :: "control_message \<Rightarrow> jfields" where
  "enc_message m = (''t'', JStr (msg_tag m)) # enc_body m"

definition dec_message :: "jfields \<Rightarrow> control_message option" where
  "dec_message fs = do {
     t \<leftarrow> req ''t'' dec_str fs;
     d \<leftarrow> map_of msg_decoders t;
     d (filter (\<lambda>p. fst p \<noteq> ''t'') fs) }"

section \<open>The envelope\<close>

definition enc_envelope :: "control_envelope \<Rightarrow> json" where
  "enc_envelope e = JObj (
     (''seq'', enc_uint (ev_seq e))
     # (case ev_ack e of None \<Rightarrow> [] | Some a \<Rightarrow> [(''ack'', enc_uint a)])
     @ enc_message (ev_body e))"

text \<open>Flattening: the fields that are not the envelope's own are handed to the body.\<close>

definition dec_envelope_fields :: "jfields \<Rightarrow> control_envelope option" where
  "dec_envelope_fields fs = do {
     s \<leftarrow> req ''seq'' dec_uint fs;
     a \<leftarrow> opt ''ack'' dec_uint fs;
     b \<leftarrow> dec_message (filter (\<lambda>p. fst p \<notin> {''seq'', ''ack''}) fs);
     Some \<lparr> ev_seq = s, ev_ack = a, ev_body = b \<rparr> }"

definition dec_envelope :: "json \<Rightarrow> control_envelope option" where
  "dec_envelope v = dec_obj dec_envelope_fields v"

section \<open>What survives the round trip\<close>

text \<open>A message the JSON codec can carry: finite doubles, canonical capabilities.\<close>

fun msg_ok :: "control_message \<Rightarrow> bool" where
  "msg_ok (Hello h) \<longleftrightarrow> list_all cap_ok (hl_caps h)"
| "msg_ok (HelloAck h) \<longleftrightarrow> list_all cap_ok (ha_caps h)"
| "msg_ok (DeviceInfo d) \<longleftrightarrow> f64_finite (dv_battery_level d)"
| "msg_ok (Telemetry t) \<longleftrightarrow> f64_finite (tm_battery_level t)"
| "msg_ok (SpeedtestResult r) \<longleftrightarrow>
     f64_finite (sr_goodput_mbps r) \<and> f64_finite (sr_rtt_ms r) \<and>
     f64_finite (sr_jitter_ms r) \<and> f64_finite (sr_loss_pct r)"
| "msg_ok _ \<longleftrightarrow> True"

definition env_ok :: "control_envelope \<Rightarrow> bool" where
  "env_ok e \<longleftrightarrow> msg_ok (ev_body e)"

section \<open>Round trips of the structs\<close>

lemma error_code_names_str [simp]: "map_of error_code_names (error_code_str v) = Some v"
  by (cases v) (simp_all add: error_code_names_def)

lemma battery_state_names_str [simp]: "map_of battery_state_names (battery_state_str v) = Some v"
  by (cases v) (simp_all add: battery_state_names_def)

lemma thermal_state_names_str [simp]: "map_of thermal_state_names (thermal_state_str v) = Some v"
  by (cases v) (simp_all add: thermal_state_names_def)

lemma camera_position_names_str [simp]: "map_of camera_position_names (camera_position_str v) = Some v"
  by (cases v) (simp_all add: camera_position_names_def)

lemma format_kind_names_str [simp]: "map_of format_kind_names (format_kind_str v) = Some v"
  by (cases v) (simp_all add: format_kind_names_def)

lemma codec_name_names_str [simp]: "map_of codec_name_names (codec_name_str v) = Some v"
  by (cases v) (simp_all add: codec_name_names_def)

lemma pixel_format_names_str [simp]: "map_of pixel_format_names (pixel_format_str v) = Some v"
  by (cases v) (simp_all add: pixel_format_names_def)

lemma speedtest_pattern_names_str [simp]: "map_of speedtest_pattern_names (speedtest_pattern_str v) = Some v"
  by (cases v) (simp_all add: speedtest_pattern_names_def)

lemma cap_ok_dec [json_simps]: "cap_ok c \<Longrightarrow> dec_cap (enc_cap c) = Some c"
  by (simp add: cap_ok_def dec_cap_def enc_cap_def)

lemma cap_ok_known: "cap_ok Hevc" "cap_ok H264" "cap_ok RawNv12" "cap_ok Usb3" "cap_ok SpeedtestV1"
  by (simp_all add: cap_ok_def cap_from_def)

lemma cap_ok_from: "cap_ok (cap_from s)"
  by (auto simp: cap_ok_def cap_from_def)

lemma dec_caps: "list_all cap_ok cs \<Longrightarrow> dec_arr dec_cap (JArr (map enc_cap cs)) = Some cs"
  by (rule dec_arr_map) (auto simp: list_all_iff cap_ok_dec)

lemma dec_enc_device_ident [json_simps]:
  "dec_device_ident (enc_device_ident x) = Some x"
  by (cases x) (simp add: enc_device_ident_def dec_device_ident_def req_def)

lemma dec_enc_hello [json_simps]:
  "list_all cap_ok (hl_caps x) \<Longrightarrow> dec_hello (enc_hello x) = Some x"
  by (cases x) (simp add: enc_hello_def dec_hello_def req_def dec_enc_device_ident dec_caps del: dec_arr.simps)

lemma dec_enc_hello_ack [json_simps]:
  "list_all cap_ok (ha_caps x) \<Longrightarrow> dec_hello_ack (enc_hello_ack x) = Some x"
  by (cases x) (simp add: enc_hello_ack_def dec_hello_ack_def req_def dec_caps del: dec_arr.simps)

lemma dec_enc_auth_ok [json_simps]:
  "dec_auth_ok (enc_auth_ok x) = Some x"
  by (cases x) (simp add: enc_auth_ok_def dec_auth_ok_def req_def)

lemma dec_enc_media_hello [json_simps]:
  "dec_media_hello (enc_media_hello x) = Some x"
  by (cases x) (simp add: enc_media_hello_def dec_media_hello_def req_def)

lemma dec_enc_bye [json_simps]:
  "dec_bye (enc_bye x) = Some x"
  by (cases x) (simp add: enc_bye_def dec_bye_def req_def)

lemma dec_enc_error_msg [json_simps]:
  "dec_error_msg (enc_error_msg x) = Some x"
  by (cases x) (simp add: enc_error_msg_def dec_error_msg_def req_def)

lemma dec_enc_device_info [json_simps]:
  "f64_finite (dv_battery_level x) \<Longrightarrow> dec_device_info (enc_device_info x) = Some x"
  by (cases x) (simp add: enc_device_info_def dec_device_info_def req_def)

lemma dec_enc_camera_entry [json_simps]:
  "dec_camera_entry (enc_camera_entry x) = Some x"
  by (cases x) (simp add: enc_camera_entry_def dec_camera_entry_def req_def traverse_map)

lemma dec_enc_camera_list [json_simps]:
  "dec_camera_list (enc_camera_list x) = Some x"
  by (cases x) (simp add: enc_camera_list_def dec_camera_list_def req_def traverse_map dec_enc_camera_entry)

lemma dec_enc_set_camera_msg [json_simps]:
  "dec_set_camera_msg (enc_set_camera_msg x) = Some x"
  by (cases x) (simp add: enc_set_camera_msg_def dec_set_camera_msg_def req_def)

lemma dec_enc_camera_state [json_simps]:
  "dec_camera_state (enc_camera_state x) = Some x"
  by (cases x) (simp add: enc_camera_state_def dec_camera_state_def req_def)

lemma dec_enc_mode [json_simps]:
  "dec_mode (enc_mode x) = Some x"
  by (cases x) (simp add: enc_mode_def dec_mode_def req_def)

lemma dec_enc_start_msg [json_simps]:
  "dec_start_msg (enc_start_msg x) = Some x"
  by (cases x) (simp add: enc_start_msg_def dec_start_msg_def req_def dec_enc_mode)

lemma dec_enc_set_mode_msg [json_simps]:
  "dec_set_mode_msg (enc_set_mode_msg x) = Some x"
  by (cases x) (simp add: enc_set_mode_msg_def dec_set_mode_msg_def req_def dec_enc_mode)

lemma dec_enc_mode_applied [json_simps]:
  "dec_mode_applied (enc_mode_applied x) = Some x"
  by (cases x) (simp add: enc_mode_applied_def dec_mode_applied_def req_def dec_enc_mode)

lemma dec_enc_telemetry [json_simps]:
  "f64_finite (tm_battery_level x) \<Longrightarrow> dec_telemetry (enc_telemetry x) = Some x"
  by (cases x) (simp add: enc_telemetry_def dec_telemetry_def req_def)

lemma dec_enc_ping [json_simps]:
  "dec_ping (enc_ping x) = Some x"
  by (cases x) (simp add: enc_ping_def dec_ping_def req_def)

lemma dec_enc_pong [json_simps]:
  "dec_pong (enc_pong x) = Some x"
  by (cases x) (simp add: enc_pong_def dec_pong_def req_def)

lemma dec_enc_speedtest_start [json_simps]:
  "dec_speedtest_start (enc_speedtest_start x) = Some x"
  by (cases x) (simp add: enc_speedtest_start_def dec_speedtest_start_def req_def)

lemma dec_enc_speedtest_tick [json_simps]:
  "dec_speedtest_tick (enc_speedtest_tick x) = Some x"
  by (cases x) (simp add: enc_speedtest_tick_def dec_speedtest_tick_def req_def)

lemma dec_enc_speedtest_result [json_simps]:
  "f64_finite (sr_goodput_mbps x) \<Longrightarrow> f64_finite (sr_rtt_ms x) \<Longrightarrow>
   f64_finite (sr_jitter_ms x) \<Longrightarrow> f64_finite (sr_loss_pct x) \<Longrightarrow> dec_speedtest_result (enc_speedtest_result x) = Some x"
  by (cases x) (simp add: enc_speedtest_result_def dec_speedtest_result_def req_def dec_enc_mode)

lemma dec_enc_auth [json_simps]: "dec_auth (enc_auth x) = Some x"
  by (cases x) (simp_all add: dec_auth_def req_def)

section \<open>Round trips of messages and envelopes\<close>

definition reserved_keys :: "string set" where
  "reserved_keys = {''seq'', ''ack'', ''t''}"

lemmas enc_struct_defs = 
  enc_device_ident_def enc_hello_def enc_hello_ack_def enc_auth_ok_def enc_media_hello_def
  enc_bye_def enc_error_msg_def enc_device_info_def enc_camera_entry_def enc_camera_list_def
  enc_set_camera_msg_def enc_camera_state_def enc_mode_def enc_start_msg_def
  enc_set_mode_msg_def enc_mode_applied_def enc_telemetry_def enc_ping_def enc_pong_def
  enc_speedtest_start_def enc_speedtest_tick_def enc_speedtest_result_def

lemma enc_auth_keys: "fst ` set (enc_auth a) \<subseteq> {''token'', ''pairingKey''}"
  by (cases a) auto

lemma enc_body_keys: "k \<in> fst ` set (enc_body m) \<Longrightarrow> k \<notin> reserved_keys"
proof (cases m)
  case (Auth a)
  assume "k \<in> fst ` set (enc_body m)"
  with Auth enc_auth_keys [of a] have "k \<in> {''token'', ''pairingKey''}" by auto
  then show ?thesis by (auto simp: reserved_keys_def)
qed (auto simp: reserved_keys_def enc_struct_defs)

lemma filter_body:
  "K \<subseteq> reserved_keys \<Longrightarrow> filter (\<lambda>p. fst p \<notin> K) (enc_body m) = enc_body m"
  using enc_body_keys [of _ m] by (intro filter_True) auto

lemma dec_enc_body:
  "msg_ok m \<Longrightarrow> \<exists>d. map_of msg_decoders (msg_tag m) = Some d \<and> d (enc_body m) = Some m"
  by (cases m) (simp_all add: msg_decoders_def json_simps)

lemma dec_enc_message: "msg_ok m \<Longrightarrow> dec_message (enc_message m) = Some m"
proof -
  assume "msg_ok m"
  then obtain d where d: "map_of msg_decoders (msg_tag m) = Some d" "d (enc_body m) = Some m"
    using dec_enc_body by blast
  have "''t'' \<notin> fst ` set (enc_body m)"
    using enc_body_keys [of "''t''" m] by (auto simp: reserved_keys_def)
  moreover have "filter (\<lambda>p. fst p \<noteq> ''t'') (enc_body m) = enc_body m"
    using filter_body [of "{''t''}" m] by (simp add: reserved_keys_def)
  ultimately show ?thesis
    using d by (simp add: dec_message_def enc_message_def req_def)
qed

lemma dec_enc_envelope: "env_ok e \<Longrightarrow> dec_envelope (enc_envelope e) = Some e"
proof -
  assume ok: "env_ok e"
  let ?fs = "enc_message (ev_body e)"
  have keys: "''seq'' \<notin> fst ` set ?fs" "''ack'' \<notin> fst ` set ?fs"
    using enc_body_keys [of "''seq''" "ev_body e"] enc_body_keys [of "''ack''" "ev_body e"]
    by (auto simp: reserved_keys_def enc_message_def)
  have flat: "filter (\<lambda>p. fst p \<noteq> ''seq'' \<and> fst p \<noteq> ''ack'') ?fs = ?fs"
    using filter_body [of "{''seq'', ''ack''}" "ev_body e"]
    by (simp add: reserved_keys_def enc_message_def)
  have "dec_message ?fs = Some (ev_body e)"
    using ok by (intro dec_enc_message) (simp add: env_ok_def)
  then show ?thesis
    using keys flat
    by (cases "ev_ack e")
      (simp_all add: dec_envelope_def enc_envelope_def dec_envelope_fields_def req_def opt_def
        jfield_absent enc_uint_def)
qed

section \<open>Properties\<close>


definition hello_envelope :: control_envelope where
  "hello_envelope = \<lparr> ev_seq = 1, ev_ack = Some 0, ev_body = Hello
     \<lparr> hl_proto_ver = 1, hl_app = ''clearcam'', hl_device = \<lparr> di_model = ''iPhone15,2'', di_os_ver = ''17.4'' \<rparr>,
       hl_session_id = ''s1'', hl_caps = [Hevc, RawNv12, Other ''av1''] \<rparr> \<rparr>"


lemma dec_message_tag: "dec_message fs = Some m \<Longrightarrow> req ''t'' dec_str fs = Some (msg_tag m)"
  by (auto simp: dec_message_def msg_decoders_def split: option.splits bind_splits if_splits)

lemma req_filter: "k \<notin> K \<Longrightarrow> req k d (filter (\<lambda>p. fst p \<notin> K) fs) = req k d fs"
proof -
  assume "k \<notin> K"
  then have "filter (\<lambda>p. fst p = k) (filter (\<lambda>p. fst p \<notin> K) fs) = filter (\<lambda>p. fst p = k) fs"
    by (auto simp: filter_filter intro!: filter_cong)
  then show ?thesis by (simp add: req_def jfield_def)
qed

lemma dec_message_tag_known:
  assumes "dec_envelope (JObj fs) = Some e"
  shows "req ''t'' dec_str fs = Some (msg_tag (ev_body e)) \<and> msg_tag (ev_body e) \<in> fst ` set msg_decoders"
proof -
  have m: "dec_message (filter (\<lambda>p. fst p \<notin> {''seq'', ''ack''}) fs) = Some (ev_body e)"
    using assms by (auto simp: dec_envelope_def dec_envelope_fields_def split: bind_splits)
  have "req ''t'' dec_str (filter (\<lambda>p. fst p \<notin> {''seq'', ''ack''}) fs) = req ''t'' dec_str fs"
    by (rule req_filter) simp
  then show ?thesis
    using dec_message_tag [OF m] by (cases "ev_body e") (simp_all add: msg_decoders_def)
qed



end
