(* ===== verification/Ccp_Envelope.thy ===== *)
theory Ccp_Envelope
  imports Prelude
begin

text \<open>
  Length-prefixed framing of control payloads in a buffer
  (\<open>crates/ccp-protocol/src/control/envelope.rs\<close>). \<open>frame\<close> panics on a payload of 4 GiB or
  more, which is the value \<open>None\<close> here. The interpretation at the end shows that frames form
  a self-delimiting encoding, so a reader that calls \<open>try_unframe\<close> repeatedly recovers
  exactly the payloads that were framed.
\<close>

definition DEFAULT_MAX_PAYLOAD :: u32 where
  "DEFAULT_MAX_PAYLOAD = 1024 * 1024"

definition PREFIX_LEN :: nat where
  "PREFIX_LEN = 4"

datatype frame_error = TooLarge u32 u32

definition frame :: "bytes \<Rightarrow> bytes option" where
  "frame payload =
     (if length payload < 2 ^ 32
      then Some (to_be_bytes32 (word_of_nat (length payload)) @ payload)
      else None)"

definition try_unframe :: "bytes \<Rightarrow> u32 \<Rightarrow> frame_error + (bytes \<times> nat) option" where
  "try_unframe buf max_payload =
     (if length buf < PREFIX_LEN then Inr None
      else let len = from_be_bytes32 (take PREFIX_LEN buf) in
        if max_payload < len then Inl (TooLarge len max_payload)
        else let tot = PREFIX_LEN + unat len in
          if length buf < tot then Inr None
          else Inr (Some (sub_list PREFIX_LEN tot buf, tot)))"

section \<open>Lemmas\<close>

lemma unat_DEFAULT_MAX_PAYLOAD [simp]: "unat DEFAULT_MAX_PAYLOAD = 1048576"
  by (simp add: DEFAULT_MAX_PAYLOAD_def)

lemma frame_Some: "length p < 2 ^ 32 \<Longrightarrow>
    frame p = Some (to_be_bytes32 (word_of_nat (length p)) @ p)"
  by (simp add: frame_def)

lemma unat_of_len: "n < 2 ^ 32 \<Longrightarrow> unat (word_of_nat n :: u32) = n"
  by (simp add: unat_of_nat)

lemma prefix_gt_iff: "n < 2 ^ 32 \<Longrightarrow> (m < (word_of_nat n :: u32)) = (unat m < n)"
  by (simp add: word_less_nat_alt unat_of_len)

lemma try_unframe_frame:
  assumes "length p \<le> unat max_payload"
  shows "try_unframe (to_be_bytes32 (word_of_nat (length p)) @ p @ rest) max_payload
    = Inr (Some (p, 4 + length p))"
proof -
  have len: "length p < 2 ^ 32"
    using assms unat_lt [of max_payload] by simp
  then show ?thesis
    using assms
    by (simp add: try_unframe_def PREFIX_LEN_def prefix_gt_iff unat_of_len Let_def
        sub_list_append_right sub_list_append_left)
qed

text \<open>The decoder of one frame, as the caller of \<open>try_unframe\<close> uses it.\<close>

definition unframe_step :: "u32 \<Rightarrow> bytes \<Rightarrow> (bytes \<times> bytes) option" where
  "unframe_step m buf =
     (case try_unframe buf m of
        Inr (Some (p, n)) \<Rightarrow> Some (p, drop n buf)
      | _ \<Rightarrow> None)"

interpretation frames: prefix_codec
  "\<lambda>p. to_be_bytes32 (word_of_nat (length p)) @ p" "unframe_step m" "\<lambda>p. length p \<le> unat m"
  for m
proof unfold_locales
  fix p rest :: bytes
  assume "length p \<le> unat m"
  then show "unframe_step m ((to_be_bytes32 (word_of_nat (length p)) @ p) @ rest) = Some (p, rest)"
    using try_unframe_frame [of p m rest] by (simp add: unframe_step_def)
qed

text \<open>
  The answer for an arbitrary buffer: more bytes are asked for while the prefix or the payload
  is incomplete, a declared length over the limit is refused as soon as the prefix is there,
  and otherwise the declared payload is returned with the number of bytes to advance.
\<close>

lemma try_unframe_exact:
  "try_unframe buf m =
     (if length buf < 4 then Inr None
      else if unat m < from_be_nat (take 4 buf)
        then Inl (TooLarge (from_be_bytes32 (take 4 buf)) m)
      else if length (drop 4 buf) < from_be_nat (take 4 buf) then Inr None
      else Inr (Some (take (from_be_nat (take 4 buf)) (drop 4 buf),
                      4 + from_be_nat (take 4 buf))))"
proof (cases "length buf < 4")
  case True
  then show ?thesis by (simp add: try_unframe_def PREFIX_LEN_def)
next
  case False
  then have "unat (from_be_bytes32 (take 4 buf)) = from_be_nat (take 4 buf)"
    by (intro unat_from_be_bytes32) simp
  with False show ?thesis
    by (auto simp: try_unframe_def PREFIX_LEN_def Let_def word_less_nat_alt sub_list_def)
qed

section \<open>Properties\<close>

text \<open>C30. A sequence of payloads, each within the receiver's limit, framed one after the
  other, is recovered by repeated \<open>try_unframe\<close>, and the bytes after the last frame are left
  in the buffer.\<close>

theorem unframe_recovers_frames:
  assumes "\<forall>p \<in> set ps. length p \<le> unat m"
  shows "decode_many (length ps) (unframe_step m) (concat (map (the \<circ> frame) ps) @ rest) = (ps, rest)"
proof -
  have "the (frame p) = to_be_bytes32 (word_of_nat (length p)) @ p" if "p \<in> set ps" for p
    using that assms unat_lt [of m] by (force simp: frame_def)
  then have "map (the \<circ> frame) ps = map (\<lambda>p. to_be_bytes32 (word_of_nat (length p)) @ p) ps"
    by simp
  then show ?thesis
    using frames.decode_many_concat [OF assms, of rest] by (simp only:)
qed

theorem unframe_recovers_frames_witness:
  "decode_many (length [[1 :: u8, 2, 3], []]) (unframe_step 1024)
     (concat (map (the \<circ> frame) [[1, 2, 3], []]) @ [9]) = ([[1, 2, 3], []], [9])"
  by (rule unframe_recovers_frames) simp

end
