(* ===== verification/Transport.thy ===== *)
theory Transport
  imports Ccp_Json Ccp_Envelope
begin

text \<open>
  The transport crate's byte level (\<open>crates/transport/src/framing.rs\<close>, \<open>streams.rs\<close>,
  \<open>source.rs\<close>, \<open>error.rs\<close>). A socket is its two directions: the bytes the peer has
  delivered and whether the peer closed its side, and the bytes written, with the room that is
  left before the peer's close makes a write fail. A read that needs more bytes than the peer
  sent is \<open>Pending\<close>: the bytes it took are in the dropped future and lost to the stream, as
  tokio documents for \<open>read_exact\<close>.
\<close>

section \<open>Sockets\<close>

datatype io_error = UnexpectedEof | BrokenPipe

record wire =
  rx :: bytes
  rx_eof :: bool
  tx :: bytes
  tx_room :: "nat option"

datatype 'a poll = Ready 'a | Pending

definition read_exact :: "nat \<Rightarrow> wire \<Rightarrow> (io_error + bytes) poll \<times> wire" where
  "read_exact n w =
     (if n \<le> length (rx w) then (Ready (Inr (take n (rx w))), w\<lparr>rx := drop n (rx w)\<rparr>)
      else if rx_eof w then (Ready (Inl UnexpectedEof), w\<lparr>rx := []\<rparr>)
      else (Pending, w\<lparr>rx := []\<rparr>))"

definition write_all :: "bytes \<Rightarrow> wire \<Rightarrow> (io_error + unit) \<times> wire" where
  "write_all bs w =
     (case tx_room w of
        None \<Rightarrow> (Inr (), w\<lparr>tx := tx w @ bs\<rparr>)
      | Some r \<Rightarrow>
          if length bs \<le> r then (Inr (), w\<lparr>tx := tx w @ bs, tx_room := Some (r - length bs)\<rparr>)
          else (Inl BrokenPipe, w\<lparr>tx := tx w @ take r bs, tx_room := Some 0\<rparr>))"

section \<open>Framing\<close>

datatype transport_error = FrameTooLarge nat | Io io_error | JsonError

definition MAX_PAYLOAD_USIZE :: nat where
  "MAX_PAYLOAD_USIZE = unat DEFAULT_MAX_PAYLOAD"

text \<open>\<open>write_frame\<close>: the size check, the prefix, the payload; a TCP flush does nothing.\<close>

definition write_frame :: "bytes \<Rightarrow> wire \<Rightarrow> (transport_error + unit) \<times> wire" where
  "write_frame json w =
     (if MAX_PAYLOAD_USIZE < length json then (Inl (FrameTooLarge (length json)), w)
      else if 2 ^ 32 \<le> length json then (Inl (FrameTooLarge (length json)), w)
      else case write_all (to_be_bytes32 (word_of_nat (length json))) w of
        (Inl e, w1) \<Rightarrow> (Inl (Io e), w1)
      | (Inr _, w1) \<Rightarrow>
          (case write_all json w1 of
             (Inl e, w2) \<Rightarrow> (Inl (Io e), w2)
           | (Inr _, w2) \<Rightarrow> (Inr (), w2)))"

text \<open>\<open>read_frame\<close>: the payload is what the source leaves in its buffer.\<close>

definition read_frame :: "wire \<Rightarrow> (transport_error + bytes) poll \<times> wire" where
  "read_frame w =
     (case read_exact 4 w of
        (Pending, w1) \<Rightarrow> (Pending, w1)
      | (Ready (Inl e), w1) \<Rightarrow> (Ready (Inl (Io e)), w1)
      | (Ready (Inr prefix), w1) \<Rightarrow>
          let len = unat (from_be_bytes32 prefix) in
          if MAX_PAYLOAD_USIZE < len then (Ready (Inl (FrameTooLarge len)), w1)
          else (case read_exact len w1 of
                  (Pending, w2) \<Rightarrow> (Pending, w2)
                | (Ready (Inl e), w2) \<Rightarrow> (Ready (Inl (Io e)), w2)
                | (Ready (Inr buf), w2) \<Rightarrow> (Ready (Inr buf), w2)))"

section \<open>Typed streams\<close>

datatype source = SrcWifi | SrcUsb string

fun source_udid :: "source \<Rightarrow> string option" where
  "source_udid (SrcUsb udid) = Some udid"
| "source_udid SrcWifi = None"

fun is_usb :: "source \<Rightarrow> bool" where
  "is_usb (SrcUsb udid) = True"
| "is_usb SrcWifi = False"

fun source_display :: "source \<Rightarrow> string" where
  "source_display SrcWifi = ''wifi''"
| "source_display (SrcUsb udid) = ''usb('' @ udid @ '')''"

type_synonym socket_addr = "nat list \<times> u16"

record peer_info =
  pe_addr :: socket_addr
  pe_source :: source

record control_stream =
  cst_peer :: peer_info
  cst_wire :: wire

record media_stream =
  ms_peer :: peer_info
  ms_wire :: wire

definition control_from_halves :: "peer_info \<Rightarrow> wire \<Rightarrow> control_stream" where
  "control_from_halves peer w = \<lparr> cst_peer = peer, cst_wire = w \<rparr>"

definition media_from_halves :: "peer_info \<Rightarrow> wire \<Rightarrow> media_stream" where
  "media_from_halves peer w = \<lparr> ms_peer = peer, ms_wire = w \<rparr>"

text \<open>The JSON level of an envelope, over the text codec \<open>J\<close>.\<close>

definition to_vec :: "json_text \<Rightarrow> control_envelope \<Rightarrow> bytes option" where
  "to_vec J env = jt_print J (enc_envelope env)"

definition from_slice :: "json_text \<Rightarrow> bytes \<Rightarrow> control_envelope option" where
  "from_slice J bs = Option.bind (jt_parse J bs) dec_envelope"

definition cs_send ::
  "json_text \<Rightarrow> control_envelope \<Rightarrow> control_stream \<Rightarrow> (transport_error + unit) \<times> control_stream" where
  "cs_send J env s =
     (case to_vec J env of
        None \<Rightarrow> (Inl JsonError, s)
      | Some json \<Rightarrow>
          let (r, w) = write_frame json (cst_wire s) in (r, s\<lparr>cst_wire := w\<rparr>))"

definition cs_recv ::
  "json_text \<Rightarrow> control_stream \<Rightarrow> (transport_error + control_envelope) poll \<times> control_stream" where
  "cs_recv J s =
     (case read_frame (cst_wire s) of
        (Pending, w) \<Rightarrow> (Pending, s\<lparr>cst_wire := w\<rparr>)
      | (Ready (Inl e), w) \<Rightarrow> (Ready (Inl e), s\<lparr>cst_wire := w\<rparr>)
      | (Ready (Inr buf), w) \<Rightarrow>
          (Ready (case from_slice J buf of None \<Rightarrow> Inl JsonError | Some env \<Rightarrow> Inr env),
           s\<lparr>cst_wire := w\<rparr>))"

section \<open>Lemmas\<close>

lemma MAX_PAYLOAD_USIZE_val: "MAX_PAYLOAD_USIZE = 1048576"
  by (simp add: MAX_PAYLOAD_USIZE_def)

definition frame_bytes :: "bytes \<Rightarrow> bytes" where
  "frame_bytes p = to_be_bytes32 (word_of_nat (length p)) @ p"

lemma length_frame_bytes [simp]: "length (frame_bytes p) = 4 + length p"
  by (simp add: frame_bytes_def)

lemma write_frame_ok:
  assumes "length p \<le> MAX_PAYLOAD_USIZE" and "tx_room w = None"
  shows "write_frame p w = (Inr (), w\<lparr>tx := tx w @ frame_bytes p\<rparr>)"
  using assms
  by (simp add: write_frame_def write_all_def frame_bytes_def MAX_PAYLOAD_USIZE_val)

lemma read_frame_frame:
  assumes "rx w = frame_bytes p @ rest" and "length p \<le> MAX_PAYLOAD_USIZE"
  shows "read_frame w = (Ready (Inr p), w\<lparr>rx := rest\<rparr>)"
  using assms
  by (simp add: read_frame_def read_exact_def frame_bytes_def MAX_PAYLOAD_USIZE_val unat_of_len Let_def)

lemma prints_env: "prints J (enc_envelope env) bs \<Longrightarrow> env_ok env \<Longrightarrow>
    to_vec J env = Some bs \<and> from_slice J bs = Some env"
  by (simp add: prints_def to_vec_def from_slice_def dec_enc_envelope)

lemma cs_send_ok:
  assumes "prints J (enc_envelope env) bs" and "length bs \<le> MAX_PAYLOAD_USIZE"
    and "tx_room (cst_wire s) = None"
  shows "cs_send J env s =
    (Inr (), s\<lparr>cst_wire := (cst_wire s)\<lparr>tx := tx (cst_wire s) @ frame_bytes bs\<rparr>\<rparr>)"
  using assms by (simp add: cs_send_def prints_def to_vec_def write_frame_ok)

lemma cs_recv_ok:
  assumes "prints J (enc_envelope env) bs" and "env_ok env"
    and "length bs \<le> MAX_PAYLOAD_USIZE" and "rx (cst_wire s) = frame_bytes bs @ rest"
  shows "cs_recv J s = (Ready (Inr env), s\<lparr>cst_wire := (cst_wire s)\<lparr>rx := rest\<rparr>\<rparr>)"
  using assms prints_env [of J env bs] by (simp add: cs_recv_def read_frame_frame)

section \<open>Properties\<close>

text \<open>C31. \<open>read_frame\<close> on a socket and \<open>try_unframe\<close> on the bytes the socket holds are the
  same parser: the same payload and the same number of bytes consumed on success, the same
  refusal of an oversized prefix (with only the prefix consumed), and end-of-file or a pending
  read exactly where \<open>try_unframe\<close> asks for more bytes.\<close>

theorem read_frame_is_try_unframe:
  "read_frame w =
     (case try_unframe (rx w) DEFAULT_MAX_PAYLOAD of
        Inl (TooLarge len m) \<Rightarrow> (Ready (Inl (FrameTooLarge (unat len))), w\<lparr>rx := drop 4 (rx w)\<rparr>)
      | Inr (Some (p, n)) \<Rightarrow> (Ready (Inr p), w\<lparr>rx := drop n (rx w)\<rparr>)
      | Inr None \<Rightarrow>
          (if rx_eof w then Ready (Inl (Io UnexpectedEof)) else Pending, w\<lparr>rx := []\<rparr>))"
proof -
  have exact: "read_exact n w = (if n \<le> length (rx w) then (Ready (Inr (take n (rx w))), w\<lparr>rx := drop n (rx w)\<rparr>)
      else (if rx_eof w then Ready (Inl UnexpectedEof) else Pending, w\<lparr>rx := []\<rparr>))" for n w
    by (simp add: read_exact_def)
  have len: "unat (from_be_bytes32 (take 4 (rx w))) = from_be_nat (take 4 (rx w))"
    if "4 \<le> length (rx w)"
    using that by (intro unat_from_be_bytes32) simp
  show ?thesis
    unfolding read_frame_def exact try_unframe_exact
    using len by (auto simp: Let_def MAX_PAYLOAD_USIZE_val add.commute)
qed

text \<open>Sending a list of envelopes in order, and receiving a number of them.\<close>

fun send_all :: "json_text \<Rightarrow> control_envelope list \<Rightarrow> control_stream \<Rightarrow> (transport_error + unit) \<times> control_stream" where
  "send_all J [] s = (Inr (), s)"
| "send_all J (e # es) s =
     (case cs_send J e s of
        (Inl err, s1) \<Rightarrow> (Inl err, s1)
      | (Inr _, s1) \<Rightarrow> send_all J es s1)"

fun recv_many :: "json_text \<Rightarrow> nat \<Rightarrow> control_stream \<Rightarrow> (transport_error + control_envelope) poll list \<times> control_stream" where
  "recv_many J 0 s = ([], s)"
| "recv_many J (Suc n) s =
     (let (r, s1) = cs_recv J s; (rs, s2) = recv_many J n s1 in (r # rs, s2))"

text \<open>An envelope that the JSON text level carries within the frame limit.\<close>

definition carried :: "json_text \<Rightarrow> control_envelope \<Rightarrow> bool" where
  "carried J e \<longleftrightarrow>
     (case to_vec J e of
        None \<Rightarrow> False
      | Some bs \<Rightarrow> prints J (enc_envelope e) bs \<and> length bs \<le> MAX_PAYLOAD_USIZE \<and> env_ok e)"

definition wire_bytes :: "json_text \<Rightarrow> control_envelope \<Rightarrow> bytes" where
  "wire_bytes J e = frame_bytes (case to_vec J e of None \<Rightarrow> [] | Some bs \<Rightarrow> bs)"

lemma send_carried:
  assumes "carried J e" and "tx_room (cst_wire s) = None"
  shows "cs_send J e s =
    (Inr (), s\<lparr>cst_wire := (cst_wire s)\<lparr>tx := tx (cst_wire s) @ wire_bytes J e\<rparr>\<rparr>)"
  using assms cs_send_ok [of J e _ s] by (auto simp: carried_def wire_bytes_def split: option.splits)

lemma recv_carried:
  assumes "carried J e" and "rx (cst_wire s) = wire_bytes J e @ rest"
  shows "cs_recv J s = (Ready (Inr e), s\<lparr>cst_wire := (cst_wire s)\<lparr>rx := rest\<rparr>\<rparr>)"
  using assms cs_recv_ok [of J e _ s rest]
  by (auto simp: carried_def wire_bytes_def split: option.splits)

lemma send_all_carried:
  assumes "list_all (carried J) es" and "tx_room (cst_wire s) = None"
  shows "send_all J es s =
    (Inr (), s\<lparr>cst_wire := (cst_wire s)\<lparr>tx := tx (cst_wire s) @ concat (map (wire_bytes J) es)\<rparr>\<rparr>)"
  using assms by (induction es arbitrary: s) (simp_all add: send_carried)

lemma recv_many_carried:
  assumes "list_all (carried J) es" and "rx (cst_wire s) = concat (map (wire_bytes J) es) @ rest"
  shows "recv_many J (length es) s =
    (map (\<lambda>e. Ready (Inr e)) es, s\<lparr>cst_wire := (cst_wire s)\<lparr>rx := rest\<rparr>\<rparr>)"
  using assms
proof (induction es arbitrary: s)
  case (Cons e es)
  from Cons.prems have "cs_recv J s =
      (Ready (Inr e), s\<lparr>cst_wire := (cst_wire s)\<lparr>rx := concat (map (wire_bytes J) es) @ rest\<rparr>\<rparr>)"
    by (intro recv_carried) auto
  with Cons show ?case by simp
qed simp

text \<open>The control connection is a reliable typed channel: when one end sends any
  sequence of envelopes the text codec carries, and the bytes it wrote reach the other end,
  the other end receives exactly these envelopes, in order, and keeps what follows them.\<close>

theorem control_channel_delivers:
  assumes "list_all (carried J) es"
    and "tx_room (cst_wire a) = None" and "tx (cst_wire a) = []"
    and "send_all J es a = (Inr (), a')"
    and "rx (cst_wire b) = tx (cst_wire a') @ rest"
  shows "recv_many J (length es) b =
    (map (\<lambda>e. Ready (Inr e)) es, b\<lparr>cst_wire := (cst_wire b)\<lparr>rx := rest\<rparr>\<rparr>)"
  using assms send_all_carried [OF assms(1,2)] by (intro recv_many_carried) auto

definition demo_env :: "u64 \<Rightarrow> control_envelope" where
  "demo_env n = \<lparr> ev_seq = n, ev_ack = None, ev_body = Ping \<lparr> pi_ts_usec = n \<rparr> \<rparr>"

definition demo_text :: json_text where
  "demo_text = table_text (map enc_envelope [demo_env 1, demo_env 2])"

definition idle_stream :: "bytes \<Rightarrow> control_stream" where
  "idle_stream bs =
     \<lparr> cst_peer = \<lparr> pe_addr = ([127, 0, 0, 1], 5000), pe_source = SrcWifi \<rparr>,
       cst_wire = \<lparr> rx = bs, rx_eof = False, tx = [], tx_room = None \<rparr> \<rparr>"

lemma carried_table:
  assumes "env_ok e" and "e \<in> set es" and "length es \<le> 256"
  shows "carried (table_text (map enc_envelope es)) e"
  using table_prints [of "enc_envelope e" "map enc_envelope es"] assms
  by (auto simp: carried_def to_vec_def MAX_PAYLOAD_USIZE_val)

lemma demo_carried: "carried demo_text (demo_env 1)" "carried demo_text (demo_env 2)"
  unfolding demo_text_def by (rule carried_table; simp add: env_ok_def demo_env_def)+

theorem control_channel_delivers_witness:
  "fst (recv_many demo_text 2
     (idle_stream (wire_bytes demo_text (demo_env 1) @ wire_bytes demo_text (demo_env 2) @ [0])))
   = [Ready (Inr (demo_env 1)), Ready (Inr (demo_env 2))]"
proof -
  let ?es = "[demo_env 1, demo_env 2]"
  let ?b = "idle_stream (wire_bytes demo_text (demo_env 1) @ wire_bytes demo_text (demo_env 2) @ [0])"
  have c: "list_all (carried demo_text) ?es" by (simp add: demo_carried)
  have room: "tx_room (cst_wire (idle_stream [])) = None" and tx: "tx (cst_wire (idle_stream [])) = []"
    by (simp_all add: idle_stream_def)
  have rx: "rx (cst_wire ?b) =
      tx (cst_wire (idle_stream [] \<lparr>cst_wire := (cst_wire (idle_stream []))
        \<lparr>tx := tx (cst_wire (idle_stream [])) @ concat (map (wire_bytes demo_text) ?es)\<rparr>\<rparr>)) @ [0]"
    by (simp add: idle_stream_def)
  have "recv_many demo_text (length ?es) ?b =
      (map (\<lambda>e. Ready (Inr e)) ?es, ?b\<lparr>cst_wire := (cst_wire ?b)\<lparr>rx := [0]\<rparr>\<rparr>)"
    by (rule control_channel_delivers [OF c room tx send_all_carried [OF c room] rx])
  then show ?thesis by (simp add: numeral_2_eq_2)
qed

end
