(* ===== verification/Ccp_Media.thy ===== *)
theory Ccp_Media
  imports Prelude
begin

text \<open>
  The 28-byte binary media header (\<open>crates/ccp-protocol/src/media/mod.rs\<close>): its data,
  \<open>encode\<close>, \<open>decode\<close> with every error branch, and the theorems that make the header a
  wire format: decoding inverts encoding in any byte context, reserved bytes and unknown flag
  bits are ignored, and \<open>decode\<close> fails exactly on the four documented conditions.
\<close>

unbundle bit_operations_syntax

section \<open>Data\<close>

definition MAGIC :: u16 where
  "MAGIC = 0xCC01"

definition HEADER_LEN :: nat where
  "HEADER_LEN = 28"

text \<open>
  \<open>Flags\<close> is a bitflags structure over one byte. Every value the program builds is a union
  of the four named bits (\<open>flags_ok\<close>), which is also what \<open>from_bits_truncate\<close> returns.
\<close>

type_synonym flags = u8

definition KEYFRAME :: flags where
  "KEYFRAME = 1"

definition ENCODED :: flags where
  "ENCODED = 2"

definition FULL_RANGE :: flags where
  "FULL_RANGE = 4"

definition CONFIG :: flags where
  "CONFIG = 8"

definition flags_all :: flags where
  "flags_all = KEYFRAME OR ENCODED OR FULL_RANGE OR CONFIG"

definition from_bits_truncate :: "u8 \<Rightarrow> flags" where
  "from_bits_truncate b = b AND flags_all"

definition flags_contains :: "flags \<Rightarrow> flags \<Rightarrow> bool" where
  "flags_contains f g \<longleftrightarrow> f AND g = g"

definition flags_ok :: "flags \<Rightarrow> bool" where
  "flags_ok f \<longleftrightarrow> f AND flags_all = f"

datatype media_type = Video

datatype codec = CodecRaw | CodecHevc | CodecH264

datatype decode_error =
    TooShort nat
  | BadMagic u16
  | UnknownMediaType u8
  | UnknownCodec u8

fun media_type_to_u8 :: "media_type \<Rightarrow> u8" where
  "media_type_to_u8 Video = 1"

definition media_type_try_from :: "u8 \<Rightarrow> decode_error + media_type" where
  "media_type_try_from v = (if v = 1 then Inr Video else Inl (UnknownMediaType v))"

fun codec_to_u8 :: "codec \<Rightarrow> u8" where
  "codec_to_u8 CodecRaw = 0"
| "codec_to_u8 CodecHevc = 1"
| "codec_to_u8 CodecH264 = 2"

definition codec_try_from :: "u8 \<Rightarrow> decode_error + codec" where
  "codec_try_from v =
     (if v = 0 then Inr CodecRaw
      else if v = 1 then Inr CodecHevc
      else if v = 2 then Inr CodecH264
      else Inl (UnknownCodec v))"

record media_header =
  mh_media_type :: media_type
  mh_flags :: flags
  mh_codec :: codec
  mh_width :: u16
  mh_height :: u16
  mh_seq :: u32
  mh_pts_usec :: u64
  mh_payload_len :: u32

section \<open>Operations\<close>

text \<open>\<open>MediaHeader::encode\<close>: a zeroed array, then one write per field.\<close>

definition mh_encode :: "media_header \<Rightarrow> bytes" where
  "mh_encode h =
     (let out = replicate HEADER_LEN 0;
          out = copy_at 0 (to_be_bytes16 MAGIC) out;
          out = out[2 := media_type_to_u8 (mh_media_type h)];
          out = out[3 := mh_flags h];
          out = out[4 := codec_to_u8 (mh_codec h)];
          out = copy_at 8 (to_be_bytes16 (mh_width h)) out;
          out = copy_at 10 (to_be_bytes16 (mh_height h)) out;
          out = copy_at 12 (to_be_bytes32 (mh_seq h)) out;
          out = copy_at 16 (to_be_bytes64 (mh_pts_usec h)) out;
          out = copy_at 24 (to_be_bytes32 (mh_payload_len h)) out
      in out)"

text \<open>\<open>MediaHeader::decode\<close>: the checks in the order of the source.\<close>

definition mh_decode :: "bytes \<Rightarrow> decode_error + media_header" where
  "mh_decode buf =
     (if length buf < HEADER_LEN then Inl (TooShort (length buf))
      else let magic = from_be_bytes16 [buf ! 0, buf ! 1] in
      if magic \<noteq> MAGIC then Inl (BadMagic magic)
      else case media_type_try_from (buf ! 2) of
        Inl e \<Rightarrow> Inl e
      | Inr mt \<Rightarrow>
          let fl = from_bits_truncate (buf ! 3) in
          (case codec_try_from (buf ! 4) of
             Inl e \<Rightarrow> Inl e
           | Inr co \<Rightarrow> Inr
               \<lparr> mh_media_type = mt, mh_flags = fl, mh_codec = co,
                 mh_width = from_be_bytes16 [buf ! 8, buf ! 9],
                 mh_height = from_be_bytes16 [buf ! 10, buf ! 11],
                 mh_seq = from_be_bytes32 (sub_list 12 16 buf),
                 mh_pts_usec = from_be_bytes64 (sub_list 16 24 buf),
                 mh_payload_len = from_be_bytes32 (sub_list 24 28 buf) \<rparr>))"

section \<open>Lemmas\<close>

lemma media_type_round [simp]: "media_type_try_from (media_type_to_u8 m) = Inr m"
  by (cases m) (simp add: media_type_try_from_def)

lemma codec_round [simp]: "codec_try_from (codec_to_u8 c) = Inr c"
  by (cases c) (simp_all add: codec_try_from_def)

lemma codec_try_from_Inr: "codec_try_from v = Inr c \<longleftrightarrow> v = codec_to_u8 c"
  by (cases c) (auto simp: codec_try_from_def split: if_splits)

lemma media_type_try_from_Inr: "media_type_try_from v = Inr m \<longleftrightarrow> v = media_type_to_u8 m"
  by (cases m) (auto simp: media_type_try_from_def)

lemma from_bits_truncate_ok: "flags_ok (from_bits_truncate b)"
  by (simp add: flags_ok_def from_bits_truncate_def and.assoc)

lemma from_bits_truncate_id: "flags_ok f \<Longrightarrow> from_bits_truncate f = f"
  by (simp add: flags_ok_def from_bits_truncate_def)

text \<open>The header as a concatenation of its fields.\<close>

lemma two_bytes: "length bs = 2 \<Longrightarrow> [bs ! 0, bs ! Suc 0] = bs"
  by (cases bs; cases "tl bs") auto

lemma mh_encode_fields:
  "mh_encode h =
     to_be_bytes16 MAGIC
     @ [media_type_to_u8 (mh_media_type h), mh_flags h, codec_to_u8 (mh_codec h), 0, 0, 0]
     @ to_be_bytes16 (mh_width h) @ to_be_bytes16 (mh_height h) @ to_be_bytes32 (mh_seq h)
     @ to_be_bytes64 (mh_pts_usec h) @ to_be_bytes32 (mh_payload_len h)"
proof -
  have eq: "copy_at i src dst = take i dst @ src @ drop (i + n) dst" if "length src = n"
    for i n and src dst :: bytes
    using that by (simp add: copy_at_def)
  show ?thesis
    unfolding mh_encode_def Let_def HEADER_LEN_def
      eq [OF length_to_be_bytes(1)] eq [OF length_to_be_bytes(2)] eq [OF length_to_be_bytes(3)]
    by (simp add: list_update_append numeral_eq_Suc)
qed

lemma length_mh_encode [simp, wire_simps]: "length (mh_encode h) = HEADER_LEN"
  by (simp add: mh_encode_fields HEADER_LEN_def)

lemma mh_decode_encode_append:
  assumes "flags_ok (mh_flags h)"
  shows "mh_decode (mh_encode h @ rest) = Inr h"
  using assms
  by (simp add: mh_decode_def mh_encode_fields HEADER_LEN_def Let_def nth_append two_bytes
      sub_list_append_left sub_list_append_right sub_list_Cons from_bits_truncate_id)

text \<open>The bytes a decoder ignores: the three reserved bytes and the unknown flag bits.\<close>

definition canonical_header :: "bytes \<Rightarrow> bytes" where
  "canonical_header buf =
     (take 28 buf)[3 := from_bits_truncate (buf ! 3), 5 := 0, 6 := 0, 7 := 0]"

lemma to_u8_inject [simp]:
  "media_type_to_u8 a = media_type_to_u8 b \<longleftrightarrow> a = b" "codec_to_u8 c = codec_to_u8 d \<longleftrightarrow> c = d"
  by (metis media_type_round sum.inject(2)) (metis codec_round sum.inject(2))

lemma header_split:
  assumes "28 \<le> length buf"
  obtains m v f c r w h s p l rest where
    "buf = m @ [v, f, c] @ r @ w @ h @ s @ p @ l @ rest"
    "length m = 2" "length r = 3" "length w = 2" "length h = 2" "length s = 4" "length p = 8"
    "length l = 4"
proof
  show "buf = take 2 buf @ [buf ! 2, buf ! 3, buf ! 4] @ take 3 (drop 5 buf) @ take 2 (drop 8 buf)
      @ take 2 (drop 10 buf) @ take 4 (drop 12 buf) @ take 8 (drop 16 buf) @ take 4 (drop 24 buf)
      @ drop 28 buf"
  proof -
    have tk: "drop n buf = take k (drop n buf) @ drop (n + k) buf" for n k
      by (metis add.commute append_take_drop_id drop_drop)
    have three: "[buf ! 2, buf ! 3, buf ! 4] = take 3 (drop 2 buf)"
      using assms by (simp add: numeral_eq_Suc flip: Cons_nth_drop_Suc)
    show ?thesis
      unfolding three
      using tk [of 0 2] tk [of 2 3] tk [of 5 3] tk [of 8 2] tk [of 10 2] tk [of 12 4] tk [of 16 8]
        tk [of 24 4]
      by simp
  qed
qed (use assms in simp_all)

lemma mh_decode_parts:
  assumes "length m = 2" "length r = 3" "length w = 2" "length h = 2" "length s = 4" "length p = 8"
    "length l = 4"
  shows "mh_decode (m @ [v, f, c] @ r @ w @ h @ s @ p @ l @ rest) =
    (if from_be_bytes16 m \<noteq> MAGIC then Inl (BadMagic (from_be_bytes16 m))
     else case media_type_try_from v of
        Inl e \<Rightarrow> Inl e
      | Inr mt \<Rightarrow>
          (case codec_try_from c of
             Inl e \<Rightarrow> Inl e
           | Inr co \<Rightarrow> Inr
               \<lparr> mh_media_type = mt, mh_flags = from_bits_truncate f, mh_codec = co,
                 mh_width = from_be_bytes16 w, mh_height = from_be_bytes16 h,
                 mh_seq = from_be_bytes32 s, mh_pts_usec = from_be_bytes64 p,
                 mh_payload_len = from_be_bytes32 l \<rparr>))"
  using assms
  by (simp add: mh_decode_def HEADER_LEN_def Let_def nth_append two_bytes
      sub_list_append_left sub_list_append_right sub_list_Cons split: sum.split)

lemma canonical_parts:
  assumes "length m = 2" "length r = 3" "length w = 2" "length h = 2" "length s = 4" "length p = 8"
    "length l = 4"
  shows "canonical_header (m @ [v, f, c] @ r @ w @ h @ s @ p @ l @ rest) =
    m @ [v, from_bits_truncate f, c, 0, 0, 0] @ w @ h @ s @ p @ l"
proof -
  obtain a b d where "r = [a, b, d]"
    using assms(2) by (auto simp: numeral_eq_Suc length_Suc_conv)
  then show ?thesis
    using assms by (simp add: canonical_header_def nth_append list_update_append)
qed

lemma to_be_bytes16_eq_iff: "length bs = 2 \<Longrightarrow> to_be_bytes16 w = bs \<longleftrightarrow> w = from_be_bytes16 bs"
  using to_from_be_bytes16 by auto

lemma to_be_bytes32_eq_iff: "length bs = 4 \<Longrightarrow> to_be_bytes32 w = bs \<longleftrightarrow> w = from_be_bytes32 bs"
  using to_from_be_bytes32 by auto

lemma to_be_bytes64_eq_iff: "length bs = 8 \<Longrightarrow> to_be_bytes64 w = bs \<longleftrightarrow> w = from_be_bytes64 bs"
  using to_from_be_bytes64 by auto

lemma mh_encode_parts_iff:
  assumes "length m = 2" "length w = 2" "length h = 2" "length s = 4" "length p = 8" "length l = 4"
  shows "mh_encode x = m @ [v, f, c, 0, 0, 0] @ w @ h @ s @ p @ l \<longleftrightarrow>
    from_be_bytes16 m = MAGIC \<and> v = media_type_to_u8 (mh_media_type x) \<and> f = mh_flags x
    \<and> c = codec_to_u8 (mh_codec x) \<and> mh_width x = from_be_bytes16 w
    \<and> mh_height x = from_be_bytes16 h \<and> mh_seq x = from_be_bytes32 s
    \<and> mh_pts_usec x = from_be_bytes64 p \<and> mh_payload_len x = from_be_bytes32 l"
  using assms
  by (auto simp: mh_encode_fields append_eq_append_conv to_be_bytes16_eq_iff to_be_bytes32_eq_iff
      to_be_bytes64_eq_iff)

section \<open>Properties\<close>

text \<open>Media headers survive the wire: decoding a buffer that starts with an encoded
  header, whatever follows it, returns that header.\<close>

theorem media_header_round_trip:
  "flags_ok (mh_flags h) \<Longrightarrow> mh_decode (mh_encode h @ rest) = Inr h \<and> length (mh_encode h) = 28"
  using mh_decode_encode_append [of h rest] length_mh_encode [of h] by (simp add: HEADER_LEN_def)

definition sample_header :: media_header where
  "sample_header = \<lparr> mh_media_type = Video, mh_flags = KEYFRAME OR FULL_RANGE, mh_codec = CodecHevc,
     mh_width = 1920, mh_height = 1080, mh_seq = 7, mh_pts_usec = 33333, mh_payload_len = 3 \<rparr>"

theorem media_header_round_trip_witness:
  "mh_decode (mh_encode sample_header @ [1, 2, 3]) = Inr sample_header
   \<and> length (mh_encode sample_header) = 28"
  by (rule media_header_round_trip)
    (simp add: sample_header_def flags_ok_def flags_all_def KEYFRAME_def ENCODED_def FULL_RANGE_def CONFIG_def)

text \<open>C32. Exactly which buffers decode: a buffer decodes to \<open>h\<close> if and only if it has at
  least 28 bytes and its first 28 bytes, with the reserved bytes zeroed and the unknown flag
  bits cleared, are the encoding of \<open>h\<close>. So nothing but those bits is ignored, and the
  encoder is the canonical form.\<close>

theorem media_header_decode_exact:
  "mh_decode buf = Inr h \<longleftrightarrow> 28 \<le> length buf \<and> mh_encode h = canonical_header buf"
proof (cases "28 \<le> length buf")
  case True
  then obtain m v f c r w hh s p l rest where
    b: "buf = m @ [v, f, c] @ r @ w @ hh @ s @ p @ l @ rest" and
    len: "length m = 2" "length r = 3" "length w = 2" "length hh = 2" "length s = 4"
      "length p = 8" "length l = 4"
    by (rule header_split)
  show ?thesis
    unfolding b mh_decode_parts [OF len] canonical_parts [OF len]
      mh_encode_parts_iff [OF len(1,3,4,5,6,7)]
    using True [unfolded b]
    by (cases h) (auto simp: media_type_try_from_Inr codec_try_from_Inr split: sum.splits)
next
  case False
  then show ?thesis by (simp add: mh_decode_def HEADER_LEN_def)
qed

end
