(* ===== verification/Media_Pipeline.thy ===== *)
theory Media_Pipeline
  imports Transport Ccp_Media
begin

text \<open>
  The media path (\<open>crates/mediapipeline\<close>, \<open>crates/decode\<close>, \<open>crates/sink\<close>): reading
  and writing \<open>[header][payload]\<close> records, splitting NV12 payloads, the decoder trait and
  its passthrough implementation, the speedtest counter, and the pipeline task that reads
  records, diverts speedtest filler to the counter and hands video frames to every sink.

  A sink is a state and the function its \<open>submit\<close> is; the decoder is a state and a
  function too (the two trait objects). The locale \<open>nv12_decoder\<close> is what the pipeline
  relies on in a decoder; the passthrough decoder is an instance. The theorems: records
  survive the wire, a run of the pipeline over any sequence of records treats them one by
  one, filler never reaches a sink and is counted to the byte, a bad payload only loses that
  frame, and every frame a sink gets has planes of the announced size.
\<close>

section \<open>Frames and sinks\<close>

record frame_rec =
  fr_width :: u16
  fr_height :: u16
  fr_pts_usec :: u64
  fr_seq :: u32
  fr_codec :: codec
  fr_plane_y :: bytes
  fr_plane_uv :: bytes
  fr_full_range :: bool

definition is_raw_nv12 :: "frame_rec \<Rightarrow> bool" where
  "is_raw_nv12 f \<longleftrightarrow> fr_codec f = CodecRaw \<and> fr_plane_y f \<noteq> [] \<and> fr_plane_uv f \<noteq> []"

section \<open>Decoders\<close>

record frame_hint =
  fh_width :: u16
  fh_height :: u16
  fh_pts_usec :: u64
  fh_seq :: u32
  fh_keyframe :: bool
  fh_config :: bool
  fh_full_range :: bool

type_synonym 'd decoder_fun = "'d \<Rightarrow> codec \<Rightarrow> bytes \<Rightarrow> frame_hint \<Rightarrow> frame_rec option \<times> 'd"

definition passthrough_decode :: "unit decoder_fun" where
  "passthrough_decode d codec payload hint =
     (if fh_config hint then (None, d)
      else
        let w = unat (fh_width hint); h = unat (fh_height hint);
            y_size = w * h; uv_size = w * h div 2;
            y_byte = ucast (fh_seq hint mod 256) :: u8
        in (Some \<lparr> fr_width = fh_width hint, fr_height = fh_height hint,
                   fr_pts_usec = fh_pts_usec hint, fr_seq = fh_seq hint, fr_codec = CodecRaw,
                   fr_plane_y = replicate y_size y_byte, fr_plane_uv = replicate uv_size 128,
                   fr_full_range = fh_full_range hint \<rparr>, d))"

section \<open>Records on the wire\<close>

datatype media_pipeline_error =
    MpTransport transport_error
  | MpHeader decode_error
  | PayloadTooLarge u32
  | UnsupportedCodec codec
  | PlaneSizeMismatch nat nat

definition MAX_FRAME_BYTES :: u32 where
  "MAX_FRAME_BYTES = 16 * 1024 * 1024"

record media_frame =
  mf_header :: media_header
  mf_payload :: bytes

definition read_media_frame ::
    "media_stream \<Rightarrow> (media_pipeline_error + media_frame) poll \<times> media_stream" where
  "read_media_frame s =
     (case read_exact HEADER_LEN (ms_wire s) of
        (Pending, w1) \<Rightarrow> (Pending, s\<lparr>ms_wire := w1\<rparr>)
      | (Ready (Inl e), w1) \<Rightarrow> (Ready (Inl (MpTransport (Io e))), s\<lparr>ms_wire := w1\<rparr>)
      | (Ready (Inr header_buf), w1) \<Rightarrow>
          (case mh_decode header_buf of
             Inl e \<Rightarrow> (Ready (Inl (MpHeader e)), s\<lparr>ms_wire := w1\<rparr>)
           | Inr header \<Rightarrow>
               if MAX_FRAME_BYTES < mh_payload_len header
               then (Ready (Inl (PayloadTooLarge (mh_payload_len header))), s\<lparr>ms_wire := w1\<rparr>)
               else (case read_exact (unat (mh_payload_len header)) w1 of
                  (Pending, w2) \<Rightarrow> (Pending, s\<lparr>ms_wire := w2\<rparr>)
                | (Ready (Inl e), w2) \<Rightarrow> (Ready (Inl (MpTransport (Io e))), s\<lparr>ms_wire := w2\<rparr>)
                | (Ready (Inr payload), w2) \<Rightarrow>
                    (Ready (Inr \<lparr> mf_header = header, mf_payload = payload \<rparr>),
                     s\<lparr>ms_wire := w2\<rparr>))))"

definition write_media_frame ::
    "media_header \<Rightarrow> bytes \<Rightarrow> wire \<Rightarrow> (media_pipeline_error + unit) \<times> wire" where
  "write_media_frame header payload w =
     (case write_all (mh_encode header) w of
        (Inl e, w1) \<Rightarrow> (Inl (MpTransport (Io e)), w1)
      | (Inr _, w1) \<Rightarrow>
          (case write_all payload w1 of
             (Inl e, w2) \<Rightarrow> (Inl (MpTransport (Io e)), w2)
           | (Inr _, w2) \<Rightarrow> (Inr (), w2)))"

definition split_nv12 :: "bytes \<Rightarrow> u16 \<Rightarrow> u16 \<Rightarrow> media_pipeline_error + (bytes \<times> bytes)" where
  "split_nv12 payload width height =
     (let w = unat width; h = unat height; y_size = w * h; uv_size = w * h div 2;
          expected = y_size + uv_size
      in if length payload \<noteq> expected then Inl (PlaneSizeMismatch (length payload) expected)
         else Inr (take y_size payload, drop y_size payload))"

section \<open>The speedtest counter\<close>

definition SPEEDTEST_SEQ_BASE :: u32 where
  "SPEEDTEST_SEQ_BASE = 0xFFFF0000"

definition is_speedtest_marker :: "u32 \<Rightarrow> bool" where
  "is_speedtest_marker sq \<longleftrightarrow> SPEEDTEST_SEQ_BASE \<le> sq"

definition speedtest_step_index :: "u32 \<Rightarrow> u32" where
  "speedtest_step_index sq = sq - SPEEDTEST_SEQ_BASE"

record speedtest_arrival =
  sa_step_index :: u32
  sa_payload_bytes :: u64

type_synonym speedtest_counter = "speedtest_arrival list"

definition counter_new :: speedtest_counter where
  "counter_new = []"

definition counter_record :: "speedtest_arrival \<Rightarrow> speedtest_counter \<Rightarrow> speedtest_counter" where
  "counter_record a c = c @ [a]"

definition bytes_for_step :: "u32 \<Rightarrow> speedtest_counter \<Rightarrow> u64" where
  "bytes_for_step step c =
     sum_list (map sa_payload_bytes (filter (\<lambda>a. sa_step_index a = step) c))"

definition counter_drain :: "speedtest_counter \<Rightarrow> speedtest_arrival list \<times> speedtest_counter" where
  "counter_drain c = (c, [])"

section \<open>The pipeline\<close>

definition hint_of :: "media_header \<Rightarrow> frame_hint" where
  "hint_of h =
     \<lparr> fh_width = mh_width h, fh_height = mh_height h, fh_pts_usec = mh_pts_usec h,
       fh_seq = mh_seq h, fh_keyframe = flags_contains (mh_flags h) KEYFRAME,
       fh_config = flags_contains (mh_flags h) CONFIG,
       fh_full_range = flags_contains (mh_flags h) FULL_RANGE \<rparr>"

text \<open>The frame \<open>ingest\<close> hands to the sinks, if any, and the decoder's next state.\<close>

definition ingest_frame ::
    "'d decoder_fun \<Rightarrow> media_frame \<Rightarrow> 'd \<Rightarrow> (media_pipeline_error + frame_rec option) \<times> 'd" where
  "ingest_frame decode raw d =
     (let h = mf_header raw in
      case mh_codec h of
        CodecRaw \<Rightarrow>
          (case split_nv12 (mf_payload raw) (mh_width h) (mh_height h) of
             Inl e \<Rightarrow> (Inl e, d)
           | Inr (y, uv) \<Rightarrow>
               (Inr (Some \<lparr> fr_width = mh_width h, fr_height = mh_height h,
                  fr_pts_usec = mh_pts_usec h, fr_seq = mh_seq h, fr_codec = CodecRaw,
                  fr_plane_y = y, fr_plane_uv = uv,
                  fr_full_range = flags_contains (mh_flags h) FULL_RANGE \<rparr>), d))
      | codec \<Rightarrow>
          (case decode d codec (mf_payload raw) (hint_of h) of
             (Some f, d') \<Rightarrow> (Inr (Some f), d')
           | (None, d') \<Rightarrow> (Inr None, d')))"

definition ingest ::
    "('s \<Rightarrow> frame_rec \<Rightarrow> 's) \<Rightarrow> 'd decoder_fun \<Rightarrow> media_frame \<Rightarrow> 's list \<Rightarrow> 'd
     \<Rightarrow> (media_pipeline_error + unit) \<times> 's list \<times> 'd" where
  "ingest submit decode raw sinks d =
     (case ingest_frame decode raw d of
        (Inl e, d') \<Rightarrow> (Inl e, sinks, d')
      | (Inr None, d') \<Rightarrow> (Inr (), sinks, d')
      | (Inr (Some fr), d') \<Rightarrow> (Inr (), map (\<lambda>s. submit s fr) sinks, d'))"

record ('s, 'd) pipeline =
  pl_sinks :: "'s list"
  pl_decoder :: 'd
  pl_counter :: "speedtest_counter option"

text \<open>The body of the loop for one record that was read.\<close>

definition pipeline_frame ::
    "('s \<Rightarrow> frame_rec \<Rightarrow> 's) \<Rightarrow> 'd decoder_fun \<Rightarrow> media_frame \<Rightarrow> ('s, 'd) pipeline \<Rightarrow> ('s, 'd) pipeline" where
  "pipeline_frame submit decode fr p =
     (if is_speedtest_marker (mh_seq (mf_header fr)) then
        (case pl_counter p of
           None \<Rightarrow> p
         | Some counter \<Rightarrow>
             p\<lparr>pl_counter := Some (counter_record
                  \<lparr> sa_step_index = speedtest_step_index (mh_seq (mf_header fr)),
                    sa_payload_bytes = word_of_nat (length (mf_payload fr)) \<rparr> counter)\<rparr>)
      else
        (case ingest submit decode fr (pl_sinks p) (pl_decoder p) of
           (r, sinks, d) \<Rightarrow> p\<lparr>pl_sinks := sinks, pl_decoder := d\<rparr>))"

datatype pipeline_end = Exited media_pipeline_error | Waiting

lemma read_exact_rx: "length (rx (snd (read_exact n w))) \<le> length (rx w)"
  by (simp add: read_exact_def)

lemma read_exact_Ready: "read_exact n w = (Ready (Inr bs), w') \<Longrightarrow> length (rx w) = n + length (rx w')"
  by (auto simp: read_exact_def split: if_splits)

lemma read_media_frame_rx:
  "read_media_frame s = (Ready (Inr f), s') \<Longrightarrow> length (rx (ms_wire s')) < length (rx (ms_wire s))"
  by (auto simp: read_media_frame_def HEADER_LEN_def split: prod.splits poll.splits sum.splits if_splits
      dest!: read_exact_Ready)

text \<open>The task: it runs until the stream fails (\<open>Exited\<close>) or more bytes are needed; then it stays
  suspended in the read, which keeps the bytes it has.\<close>

function pipeline_loop ::
    "('s \<Rightarrow> frame_rec \<Rightarrow> 's) \<Rightarrow> 'd decoder_fun \<Rightarrow> media_stream \<Rightarrow> ('s, 'd) pipeline
     \<Rightarrow> pipeline_end \<times> media_stream \<times> ('s, 'd) pipeline" where
  "pipeline_loop submit decode stream p =
     (case read_media_frame stream of
        (Pending, stream') \<Rightarrow> (Waiting, stream, p)
      | (Ready (Inl e), stream') \<Rightarrow> (Exited e, stream', p)
      | (Ready (Inr fr), stream') \<Rightarrow>
          pipeline_loop submit decode stream' (pipeline_frame submit decode fr p))"
  by pat_completeness auto
termination
  by (relation "measure (\<lambda>(_, _, stream, _). length (rx (ms_wire stream)))")
    (auto dest: read_media_frame_rx [OF sym])

declare pipeline_loop.simps [simp del]

section \<open>Records survive the wire\<close>

definition record_ok :: "media_frame \<Rightarrow> bool" where
  "record_ok f \<longleftrightarrow> flags_ok (mh_flags (mf_header f)) \<and>
     unat (mh_payload_len (mf_header f)) = length (mf_payload f) \<and>
     length (mf_payload f) \<le> unat MAX_FRAME_BYTES"

definition record_bytes :: "media_frame \<Rightarrow> bytes" where
  "record_bytes f = mh_encode (mf_header f) @ mf_payload f"

definition stream_of :: "bytes \<Rightarrow> media_stream" where
  "stream_of bs =
     \<lparr> ms_peer = \<lparr> pe_addr = ([127, 0, 0, 1], 5001), pe_source = SrcWifi \<rparr>,
       ms_wire = \<lparr> rx = bs, rx_eof = False, tx = [], tx_room = None \<rparr> \<rparr>"

definition record_step :: "bytes \<Rightarrow> (media_frame \<times> bytes) option" where
  "record_step bs =
     (case read_media_frame (stream_of bs) of
        (Ready (Inr f), s) \<Rightarrow> Some (f, rx (ms_wire s))
      | _ \<Rightarrow> None)"

lemma mh_decode_encode: "flags_ok (mh_flags h) \<Longrightarrow> mh_decode (mh_encode h) = Inr h"
  using mh_decode_encode_append [of h "[]"] by simp

lemma read_media_frame_record:
  assumes "record_ok f" and "rx (ms_wire s) = record_bytes f @ rest"
  shows "read_media_frame s = (Ready (Inr f), s\<lparr>ms_wire := (ms_wire s)\<lparr>rx := rest\<rparr>\<rparr>)"
proof -
  have "\<not> MAX_FRAME_BYTES < mh_payload_len (mf_header f)"
    using assms(1) by (simp add: record_ok_def word_less_nat_alt)
  then show ?thesis
    using assms
    by (cases f) (simp add: read_media_frame_def read_exact_def record_bytes_def record_ok_def
        mh_decode_encode)
qed

interpretation records: prefix_codec record_bytes record_step record_ok
  by unfold_locales (simp add: record_step_def read_media_frame_record stream_of_def)

lemma write_media_frame_ok:
  "tx_room w = None \<Longrightarrow>
   write_media_frame h p w = (Inr (), w\<lparr>tx := tx w @ record_bytes \<lparr> mf_header = h, mf_payload = p \<rparr>\<rparr>)"
  by (simp add: write_media_frame_def write_all_def record_bytes_def)

section \<open>Runs of the pipeline\<close>

definition starved :: "bytes \<Rightarrow> bool" where
  "starved bs \<longleftrightarrow> length bs < HEADER_LEN"

lemma pipeline_loop_records:
  assumes "list_all record_ok fs" and "rx (ms_wire s) = concat (map record_bytes fs) @ rest"
  shows "pipeline_loop submit decode s p =
    pipeline_loop submit decode (s\<lparr>ms_wire := (ms_wire s)\<lparr>rx := rest\<rparr>\<rparr>)
      (fold (pipeline_frame submit decode) fs p)"
  using assms
proof (induction fs arbitrary: s p)
  case (Cons f fs)
  from Cons.prems have "read_media_frame s =
      (Ready (Inr f), s\<lparr>ms_wire := (ms_wire s)\<lparr>rx := concat (map record_bytes fs) @ rest\<rparr>\<rparr>)"
    by (intro read_media_frame_record) auto
  then have "pipeline_loop submit decode s p =
      pipeline_loop submit decode
        (s\<lparr>ms_wire := (ms_wire s)\<lparr>rx := concat (map record_bytes fs) @ rest\<rparr>\<rparr>)
        (pipeline_frame submit decode f p)"
    by (subst pipeline_loop.simps) simp
  with Cons show ?case by simp
next
  case Nil
  then have "s\<lparr>ms_wire := (ms_wire s)\<lparr>rx := rest\<rparr>\<rparr> = s"
    by (cases s; cases "ms_wire s") auto
  then show ?case by simp
qed

lemma pipeline_loop_starved:
  assumes "starved (rx (ms_wire s))"
  shows "pipeline_loop submit decode s p =
    (if rx_eof (ms_wire s)
     then (Exited (MpTransport (Io UnexpectedEof)), s\<lparr>ms_wire := (ms_wire s)\<lparr>rx := []\<rparr>\<rparr>, p)
     else (Waiting, s, p))"
  using assms
  by (subst pipeline_loop.simps) (simp add: read_media_frame_def read_exact_def starved_def)

text \<open>Bytes that arrive later on the stream.\<close>

definition arrive :: "bytes \<Rightarrow> media_stream \<Rightarrow> media_stream" where
  "arrive bs s = s\<lparr>ms_wire := (ms_wire s)\<lparr>rx := rx (ms_wire s) @ bs\<rparr>\<rparr>"

lemma read_exact_arrive:
  assumes "read_exact n w = (Ready r, w')" and "\<not> rx_eof w"
  shows "read_exact n (w\<lparr>rx := rx w @ bs\<rparr>) = (Ready r, w'\<lparr>rx := rx w' @ bs\<rparr>)" and "\<not> rx_eof w'"
  using assms by (auto simp: read_exact_def split: if_splits)

lemma read_media_frame_arrive:
  assumes "read_media_frame s = (Ready r, s')" and "\<not> rx_eof (ms_wire s)"
  shows "read_media_frame (arrive bs s) = (Ready r, arrive bs s')" and "\<not> rx_eof (ms_wire s')"
proof -
  obtain r1 w1 where h: "read_exact HEADER_LEN (ms_wire s) = (r1, w1)" by fastforce
  from assms(1) h obtain q1 where r1: "r1 = Ready q1" by (cases r1) (auto simp: read_media_frame_def)
  note h' = read_exact_arrive(1) [OF h [unfolded r1] assms(2), of bs]
    read_exact_arrive(2) [OF h [unfolded r1] assms(2)]
  show "read_media_frame (arrive bs s) = (Ready r, arrive bs s')" "\<not> rx_eof (ms_wire s')"
    using assms(1) h r1 h'
    by (auto simp: read_media_frame_def arrive_def split: sum.splits if_splits prod.splits poll.splits
        dest: read_exact_arrive(1) [where bs = bs] read_exact_arrive(2))
qed

lemma pipeline_loop_arrive:
  assumes "\<not> rx_eof (ms_wire s)" and "pipeline_loop submit decode s p = (Waiting, s1, p1)"
  shows "pipeline_loop submit decode (arrive bs s1) p1 = pipeline_loop submit decode (arrive bs s) p"
  using assms
proof (induction submit decode s p rule: pipeline_loop.induct)
  case (1 submit decode s p)
  obtain r s' where rd: "read_media_frame s = (r, s')" by fastforce
  show ?case
  proof (cases r)
    case Pending
    then have "s1 = s" "p1 = p" using "1.prems"(2) rd by (simp_all add: pipeline_loop.simps [of _ _ s])
    then show ?thesis by simp
  next
    case (Ready q)
    show ?thesis
    proof (cases q)
      case (Inl e)
      then show ?thesis using "1.prems"(2) rd Ready by (simp add: pipeline_loop.simps [of _ _ s])
    next
      case (Inr f)
      note arr = read_media_frame_arrive(1) [OF rd [unfolded Ready Inr] "1.prems"(1), of bs]
        read_media_frame_arrive(2) [OF rd [unfolded Ready Inr] "1.prems"(1)]
      have "pipeline_loop submit decode s' (pipeline_frame submit decode f p) = (Waiting, s1, p1)"
        using "1.prems"(2) rd Ready Inr by (simp add: pipeline_loop.simps [of _ _ s])
      then show ?thesis
        using "1.IH" [OF rd [symmetric] Ready Inr] arr
        by (simp add: pipeline_loop.simps [of _ _ "arrive bs s"])
    qed
  qed
qed

definition is_filler :: "media_frame \<Rightarrow> bool" where
  "is_filler f = is_speedtest_marker (mh_seq (mf_header f))"

definition arrival_of :: "media_frame \<Rightarrow> speedtest_arrival" where
  "arrival_of f =
     \<lparr> sa_step_index = speedtest_step_index (mh_seq (mf_header f)),
       sa_payload_bytes = word_of_nat (length (mf_payload f)) \<rparr>"

lemma pipeline_frame_filler:
  "is_filler f \<Longrightarrow> pipeline_frame submit decode f p
     = p\<lparr>pl_counter := map_option (\<lambda>c. c @ [arrival_of f]) (pl_counter p)\<rparr>"
  by (auto simp: pipeline_frame_def is_filler_def arrival_of_def counter_record_def
      split: option.splits)

lemma pipeline_frame_video_counter:
  "\<not> is_filler f \<Longrightarrow> pl_counter (pipeline_frame submit decode f p) = pl_counter p"
  by (simp add: pipeline_frame_def is_filler_def split: prod.splits)

lemma pipeline_frame_video:
  assumes "\<not> is_filler f"
  shows "pl_sinks (pipeline_frame submit decode f p)
           = fst (snd (ingest submit decode f (pl_sinks p) (pl_decoder p)))"
    and "pl_decoder (pipeline_frame submit decode f p)
           = snd (snd (ingest submit decode f (pl_sinks p) (pl_decoder p)))"
  using assms by (simp_all add: pipeline_frame_def is_filler_def split: prod.splits)

lemma pipeline_frames_counter:
  "pl_counter (fold (pipeline_frame submit decode) fs p)
   = map_option (\<lambda>c. c @ map arrival_of (filter is_filler fs)) (pl_counter p)"
proof (induction fs arbitrary: p)
  case Nil
  then show ?case by (simp add: option.map_ident)
next
  case (Cons f fs)
  then show ?case
    by (cases "is_filler f"; cases "pl_counter p")
      (simp_all add: pipeline_frame_filler pipeline_frame_video_counter)
qed

lemma pipeline_frame_congr:
  assumes "pl_sinks p = pl_sinks q" and "pl_decoder p = pl_decoder q" and "\<not> is_filler f"
  shows "pl_sinks (pipeline_frame submit decode f p) = pl_sinks (pipeline_frame submit decode f q)"
    and "pl_decoder (pipeline_frame submit decode f p) = pl_decoder (pipeline_frame submit decode f q)"
  using assms by (simp_all add: pipeline_frame_video)

lemma pipeline_frames_video:
  assumes "pl_sinks p = pl_sinks q" and "pl_decoder p = pl_decoder q"
  shows "pl_sinks (fold (pipeline_frame submit decode) fs p)
           = pl_sinks (fold (pipeline_frame submit decode) (filter (\<lambda>f. \<not> is_filler f) fs) q)
       \<and> pl_decoder (fold (pipeline_frame submit decode) fs p)
           = pl_decoder (fold (pipeline_frame submit decode) (filter (\<lambda>f. \<not> is_filler f) fs) q)"
  using assms
proof (induction fs arbitrary: p q)
  case (Cons f fs)
  show ?case
  proof (cases "is_filler f")
    case True
    then show ?thesis using Cons by (simp add: pipeline_frame_filler)
  next
    case False
    then show ?thesis
      using Cons.IH [OF pipeline_frame_congr [OF Cons.prems False, of submit decode]] by simp
  qed
qed simp

section \<open>What a decoder must give the pipeline\<close>

definition nv12_sized :: "frame_rec \<Rightarrow> bool" where
  "nv12_sized f \<longleftrightarrow>
     length (fr_plane_y f) = unat (fr_width f) * unat (fr_height f) \<and>
     length (fr_plane_uv f) = unat (fr_width f) * unat (fr_height f) div 2 \<and>
     fr_codec f = CodecRaw"

text \<open>A decoder whose frames are NV12 frames of the announced size; \<open>inv\<close> is its state
  invariant.\<close>

locale nv12_decoder =
  fixes decode :: "'d decoder_fun" and inv :: "'d \<Rightarrow> bool"
  assumes inv_decode: "inv d \<Longrightarrow> inv (snd (decode d c p h))"
    and sized: "inv d \<Longrightarrow> decode d c p h = (Some f, d') \<Longrightarrow>
      nv12_sized f \<and> fr_width f = fh_width h \<and> fr_height f = fh_height h \<and> fr_seq f = fh_seq h"
begin

lemma ingest_frame_sized:
  assumes "inv d" and "ingest_frame decode raw d = (Inr (Some f), d')"
  shows "nv12_sized f" and "fr_seq f = mh_seq (mf_header raw)"
    and "fr_width f = mh_width (mf_header raw)" and "fr_height f = mh_height (mf_header raw)"
  using assms sized [OF assms(1), of _ "mf_payload raw" "hint_of (mf_header raw)" f d']
  by (auto simp: ingest_frame_def Let_def split_nv12_def nv12_sized_def hint_of_def
      split: codec.splits sum.splits prod.splits option.splits if_splits)

lemma ingest_frame_inv: "inv d \<Longrightarrow> inv (snd (ingest_frame decode raw d))"
  using inv_decode [of d _ "mf_payload raw" "hint_of (mf_header raw)"]
  by (auto simp: ingest_frame_def Let_def split: codec.splits sum.splits prod.splits option.splits)
    (metis snd_conv)+

text \<open>A property of a sink's state that submitting well-sized frames keeps is kept by the
  pipeline.\<close>

lemma pipeline_frame_sinks:
  assumes "inv (pl_decoder p)" and "list_all Q (pl_sinks p)"
    and submit: "\<And>s f. Q s \<Longrightarrow> nv12_sized f \<Longrightarrow> \<not> is_speedtest_marker (fr_seq f) \<Longrightarrow> Q (submit s f)"
  shows "list_all Q (pl_sinks (pipeline_frame submit decode fr p))
    \<and> inv (pl_decoder (pipeline_frame submit decode fr p))"
proof (cases "is_filler fr")
  case True
  then show ?thesis using assms by (simp add: pipeline_frame_filler)
next
  case False
  obtain r d' where r: "ingest_frame decode fr (pl_decoder p) = (r, d')" by fastforce
  have d: "inv d'" using ingest_frame_inv [OF assms(1), of fr] by (simp add: r)
  have "Q (submit s f)" if "r = Inr (Some f)" "s \<in> set (pl_sinks p)" for s f
  proof (rule submit)
    show "Q s" using assms(2) that(2) by (simp add: list_all_iff)
    show "nv12_sized f" using ingest_frame_sized(1) [OF assms(1)] r that(1) by simp
    show "\<not> is_speedtest_marker (fr_seq f)"
      using ingest_frame_sized(2) [OF assms(1)] r that(1) False by (simp add: is_filler_def)
  qed
  then show ?thesis
    using assms(2) d
    by (auto simp: pipeline_frame_video [OF False] ingest_def r list_all_iff
        split: sum.splits option.splits)
qed

lemma pipeline_frames_sinks:
  assumes "inv (pl_decoder p)" and "list_all Q (pl_sinks p)"
    and "\<And>s f. Q s \<Longrightarrow> nv12_sized f \<Longrightarrow> \<not> is_speedtest_marker (fr_seq f) \<Longrightarrow> Q (submit s f)"
  shows "list_all Q (pl_sinks (fold (pipeline_frame submit decode) fs p))"
  using assms(1,2)
proof (induction fs arbitrary: p)
  case (Cons f fs)
  then show ?case
    using pipeline_frame_sinks [OF Cons.prems assms(3), where fr = f] by simp
qed simp

end

interpretation passthrough: nv12_decoder passthrough_decode "\<lambda>_. True"
  by unfold_locales
    (auto simp: passthrough_decode_def nv12_sized_def Let_def split: if_splits)

section \<open>Properties\<close>

text \<open>Media records survive the wire: writing any sequence of well-formed records and
  reading as many back returns the same records in order and leaves what follows them.\<close>

theorem media_records_round_trip:
  "\<forall>f \<in> set fs. record_ok f \<Longrightarrow>
   decode_many (length fs) record_step (concat (map record_bytes fs) @ rest) = (fs, rest)"
  by (rule records.decode_many_concat)

definition raw_frame :: "u32 \<Rightarrow> media_frame" where
  "raw_frame sq =
     \<lparr> mf_header = \<lparr> mh_media_type = Video, mh_flags = FULL_RANGE, mh_codec = CodecRaw,
         mh_width = 2, mh_height = 2, mh_seq = sq, mh_pts_usec = 40, mh_payload_len = 6 \<rparr>,
       mf_payload = [1, 2, 3, 4, 5, 6] \<rparr>"

lemma raw_frame_ok: "record_ok (raw_frame sq)"
  by (simp add: raw_frame_def record_ok_def flags_ok_def flags_all_def MAX_FRAME_BYTES_def
      KEYFRAME_def ENCODED_def FULL_RANGE_def CONFIG_def)

theorem media_records_round_trip_witness:
  "decode_many 2 record_step (record_bytes (raw_frame 1) @ record_bytes (raw_frame 2) @ [9])
   = ([raw_frame 1, raw_frame 2], [9])"
  using media_records_round_trip [of "[raw_frame 1, raw_frame 2]" "[9]"] raw_frame_ok
  by (simp add: numeral_2_eq_2)

text \<open>C19. The pipeline separates filler from video: when the socket holds a sequence of
  well-formed records, a run of the task ends waiting for more, the sinks and the decoder are
  where a run over the video records alone leaves them, and the counter has gained exactly
  the filler records' step and size, in order.\<close>

theorem pipeline_separates_filler:
  assumes "list_all record_ok fs" and "rx (ms_wire s) = concat (map record_bytes fs)"
    and "\<not> rx_eof (ms_wire s)"
    and "pipeline_loop submit decode s p = (r, s', p')"
  shows "r = Waiting \<and> rx (ms_wire s') = []
    \<and> pl_counter p' = map_option (\<lambda>c. c @ map arrival_of (filter is_filler fs)) (pl_counter p)
    \<and> pl_sinks p' = pl_sinks (fold (pipeline_frame submit decode) (filter (\<lambda>f. \<not> is_filler f) fs) p)
    \<and> pl_decoder p' = pl_decoder (fold (pipeline_frame submit decode) (filter (\<lambda>f. \<not> is_filler f) fs) p)"
proof -
  have "pipeline_loop submit decode s p =
      (Waiting, s\<lparr>ms_wire := (ms_wire s)\<lparr>rx := []\<rparr>\<rparr>, fold (pipeline_frame submit decode) fs p)"
    using pipeline_loop_records [OF assms(1), of s "[]" submit decode p] assms(2,3)
    by (simp add: pipeline_loop_starved starved_def HEADER_LEN_def)
  then show ?thesis
    using assms(4) pipeline_frames_video [of p p submit decode fs] pipeline_frames_counter
    by auto
qed

definition count_pipeline :: "(nat, unit) pipeline" where
  "count_pipeline = \<lparr> pl_sinks = [0, 0], pl_decoder = (), pl_counter = Some [] \<rparr>"

theorem pipeline_separates_filler_witness:
  "pl_counter (snd (snd (pipeline_loop (\<lambda>n f. Suc n) passthrough_decode
     (stream_of (record_bytes (raw_frame 7) @ record_bytes (raw_frame 0xFFFF0003))) count_pipeline)))
   = Some [\<lparr> sa_step_index = 3, sa_payload_bytes = 6 \<rparr>]"
proof -
  let ?fs = "[raw_frame 7, raw_frame 0xFFFF0003]"
  let ?s = "stream_of (record_bytes (raw_frame 7) @ record_bytes (raw_frame 0xFFFF0003))"
  obtain r s' p' where run: "pipeline_loop (\<lambda>n f. Suc n) passthrough_decode ?s count_pipeline = (r, s', p')"
    by (cases "pipeline_loop (\<lambda>n f. Suc n) passthrough_decode ?s count_pipeline") auto
  have "pl_counter p' = map_option (\<lambda>c. c @ map arrival_of (filter is_filler ?fs)) (pl_counter count_pipeline)"
    using pipeline_separates_filler [OF _ _ _ run, of ?fs] raw_frame_ok by (simp add: stream_of_def)
  also have "\<dots> = Some [\<lparr> sa_step_index = 3, sa_payload_bytes = 6 \<rparr>]"
    by (simp add: count_pipeline_def is_filler_def is_speedtest_marker_def raw_frame_def
        SPEEDTEST_SEQ_BASE_def arrival_of_def speedtest_step_index_def)
  finally show ?thesis by (simp add: run)
qed

text \<open>C20. Chunking is invisible: if the pipeline waits after the bytes that have arrived, then
  what it does with any bytes that arrive later is what it would have done, had all of them
  been there at once, wherever the records were cut.\<close>

theorem chunking_is_invisible:
  assumes "\<not> rx_eof (ms_wire s)" and "pipeline_loop submit decode s p = (Waiting, s1, p1)"
  shows "pipeline_loop submit decode (arrive bs s1) p1 = pipeline_loop submit decode (arrive bs s) p"
  using assms by (rule pipeline_loop_arrive)

theorem chunking_is_invisible_witness:
  "pl_counter (snd (snd (pipeline_loop (\<lambda>n f. Suc n) passthrough_decode
     (arrive (drop 10 (record_bytes (raw_frame 0xFFFF0003))) (stream_of (take 10 (record_bytes (raw_frame 0xFFFF0003)))))
     count_pipeline))) = Some [\<lparr> sa_step_index = 3, sa_payload_bytes = 6 \<rparr>]"
proof -
  let ?b = "record_bytes (raw_frame 0xFFFF0003)" and ?L = "pipeline_loop (\<lambda>n f. Suc n) passthrough_decode"
  have w: "?L (stream_of []) count_pipeline = (Waiting, stream_of [], count_pipeline)"
    "?L (stream_of (take 10 ?b)) count_pipeline = (Waiting, stream_of (take 10 ?b), count_pipeline)"
    by (simp_all add: pipeline_loop_starved starved_def stream_of_def HEADER_LEN_def)
  have "?L (arrive (drop 10 ?b) (stream_of (take 10 ?b))) count_pipeline = ?L (arrive ?b (stream_of [])) count_pipeline"
    using chunking_is_invisible [OF _ w(1), of ?b] chunking_is_invisible [OF _ w(2), of "drop 10 ?b"]
    by (simp add: stream_of_def arrive_def)
  also have "\<dots> = ?L (stream_of (concat (map record_bytes [raw_frame 0xFFFF0003]) @ [])) count_pipeline"
    by (simp add: arrive_def stream_of_def)
  finally show ?thesis
    using pipeline_loop_records [of "[raw_frame 0xFFFF0003]" "stream_of (concat (map record_bytes [raw_frame 0xFFFF0003]) @ [])" "[]"
        "\<lambda>n f. Suc n" passthrough_decode count_pipeline] raw_frame_ok
    by (simp add: pipeline_loop_starved starved_def stream_of_def HEADER_LEN_def pipeline_frame_filler
        count_pipeline_def is_filler_def is_speedtest_marker_def raw_frame_def
        SPEEDTEST_SEQ_BASE_def arrival_of_def speedtest_step_index_def)
qed



lemma counter_bytes:
  assumes "list_all record_ok fs" and "length fs < 2 ^ 40"
  shows "unat (bytes_for_step k (map arrival_of fs))
    = sum_list (map (\<lambda>f. length (mf_payload f))
        (filter (\<lambda>f. speedtest_step_index (mh_seq (mf_header f)) = k) fs))"
proof -
  let ?S = "\<lambda>fs. sum_list (map (\<lambda>f. length (mf_payload f))
        (filter (\<lambda>f. speedtest_step_index (mh_seq (mf_header f)) = k) fs))"
  have len: "length (mf_payload f) \<le> 2 ^ 24" if "f \<in> set fs" for f
    using assms(1) that by (auto simp: list_all_iff record_ok_def MAX_FRAME_BYTES_def)
  have "?S gs \<le> length gs * 2 ^ 24 \<and>
      bytes_for_step k (map arrival_of gs) = word_of_nat (?S gs)" if "set gs \<subseteq> set fs" for gs
    using that
  proof (induction gs)
    case (Cons g gs)
    then show ?case using len [of g]
      by (auto simp: bytes_for_step_def arrival_of_def)
  qed (simp add: bytes_for_step_def)
  from this [of fs] have "?S fs \<le> length fs * 2 ^ 24"
    and val: "bytes_for_step k (map arrival_of fs) = word_of_nat (?S fs)" by simp_all
  with assms(2) have "?S fs < 2 ^ 64" by simp
  then show ?thesis by (simp add: val unat_of_nat)
qed

text \<open>The counter adds up: after a run over records that are all filler of at most 16 MiB,
  fewer than \<open>2 ^ 40\<close> of them, the bytes reported for a step are exactly the payload bytes of
  the records sent in it, without wrap-around.\<close>

theorem counter_adds_up:
  assumes "list_all record_ok fs" and "length fs < 2 ^ 40"
  shows "unat (bytes_for_step k (map arrival_of fs))
    = sum_list (map (\<lambda>f. length (mf_payload f))
        (filter (\<lambda>f. speedtest_step_index (mh_seq (mf_header f)) = k) fs))"
  using assms by (rule counter_bytes)

theorem counter_adds_up_witness:
  "unat (bytes_for_step 3 (map arrival_of [raw_frame 0xFFFF0003, raw_frame 0xFFFF0004, raw_frame 0xFFFF0003]))
   = 12"
  using counter_adds_up [of "[raw_frame 0xFFFF0003, raw_frame 0xFFFF0004, raw_frame 0xFFFF0003]" 3]
    raw_frame_ok
  by (simp add: speedtest_step_index_def raw_frame_def SPEEDTEST_SEQ_BASE_def)

text \<open>A raw payload of the wrong size loses that frame only: \<open>ingest\<close> reports the
  sizes, the sinks, the decoder and the counter are unchanged, and the task goes on.\<close>

theorem bad_raw_payload_is_skipped:
  assumes "mh_codec (mf_header f) = CodecRaw" and "\<not> is_filler f"
    and "length (mf_payload f)
      \<noteq> unat (mh_width (mf_header f)) * unat (mh_height (mf_header f))
        + unat (mh_width (mf_header f)) * unat (mh_height (mf_header f)) div 2"
  shows "(\<exists>g e. fst (ingest submit decode f sinks d) = Inl (PlaneSizeMismatch g e))
    \<and> pipeline_frame submit decode f p = p"
  using assms
  by (simp add: ingest_def ingest_frame_def split_nv12_def Let_def pipeline_frame_def is_filler_def)

theorem bad_raw_payload_is_skipped_witness:
  "pipeline_frame (\<lambda>n f. Suc n) passthrough_decode ((raw_frame 7)\<lparr>mf_payload := [1]\<rparr>) count_pipeline
   = count_pipeline"
  using bad_raw_payload_is_skipped [of "(raw_frame 7)\<lparr>mf_payload := [1]\<rparr>" "\<lambda>n f. Suc n" passthrough_decode
      "[]" "()" count_pipeline]
  by (simp add: raw_frame_def is_filler_def is_speedtest_marker_def SPEEDTEST_SEQ_BASE_def)

end
