(* ===== verification/Kv_Store.thy ===== *)
theory Kv_Store
  imports Main
begin

text \<open>
  The interface of a key-value store, as the session crate's table of pending media bindings
  and the application's pairing store provide it: what a lookup returns after an insert and
  after a removal. \<open>inv\<close> is the representation invariant.
\<close>

locale kv_store =
  fixes empty :: 's
    and lookup :: "'s \<Rightarrow> 'k \<Rightarrow> 'v option"
    and update :: "'k \<Rightarrow> 'v \<Rightarrow> 's \<Rightarrow> 's"
    and delete :: "'k \<Rightarrow> 's \<Rightarrow> 's"
    and inv :: "'s \<Rightarrow> bool"
  assumes inv_empty: "inv empty"
    and inv_update: "inv s \<Longrightarrow> inv (update k v s)"
    and inv_delete: "inv s \<Longrightarrow> inv (delete k s)"
    and lookup_empty: "lookup empty k = None"
    and lookup_update: "inv s \<Longrightarrow> lookup (update k v s) k' = (if k' = k then Some v else lookup s k')"
    and lookup_delete: "inv s \<Longrightarrow> lookup (delete k s) k' = (if k' = k then None else lookup s k')"
begin

text \<open>A sequence of operations on the store.\<close>

fun apply_ops :: "('k \<times> 'v option) list \<Rightarrow> 's \<Rightarrow> 's" where
  "apply_ops [] s = s"
| "apply_ops ((k, Some v) # ops) s = apply_ops ops (update k v s)"
| "apply_ops ((k, None) # ops) s = apply_ops ops (delete k s)"

lemma inv_apply_ops: "inv s \<Longrightarrow> inv (apply_ops ops s)"
  by (induction ops s rule: apply_ops.induct) (simp_all add: inv_update inv_delete)

text \<open>A lookup sees the last operation on its key.\<close>

lemma lookup_apply_ops:
  "inv s \<Longrightarrow> lookup (apply_ops ops s) k =
     (case map_of (rev ops) k of None \<Rightarrow> lookup s k | Some r \<Rightarrow> r)"
proof (induction ops s rule: apply_ops.induct)
  case (2 k' v ops s)
  then show ?case
    by (auto simp: inv_update lookup_update map_add_def split: option.splits)
next
  case (3 k' ops s)
  then show ?case
    by (auto simp: inv_delete lookup_delete map_add_def split: option.splits)
qed simp

lemma update_then_delete: "inv s \<Longrightarrow> lookup (delete k (update k v s)) k' = lookup (delete k s) k'"
  by (simp add: inv_update lookup_delete lookup_update)

end

end
