(* ===== verification/Std_Time.thy ===== *)
theory Std_Time
  imports F64
begin

text \<open>
  \<open>std::time\<close> as the program uses it: a \<open>Duration\<close> is a number of nanoseconds, an
  \<open>Instant\<close> a point of the monotonic clock in nanoseconds. \<open>duration_since\<close> saturates at
  zero, as the standard library documents, which is subtraction on \<open>nat\<close>. The last
  section bounds the relative error of a rounding, for the computations on measured rates.
\<close>

type_synonym duration = nat
type_synonym instant = nat

definition from_millis :: "nat \<Rightarrow> duration" where
  "from_millis ms = ms * 10 ^ 6"

definition from_secs :: "nat \<Rightarrow> duration" where
  "from_secs s = s * 10 ^ 9"

definition as_millis :: "duration \<Rightarrow> nat" where
  "as_millis d = d div 10 ^ 6"

definition as_secs :: "duration \<Rightarrow> nat" where
  "as_secs d = d div 10 ^ 9"

definition subsec_nanos :: "duration \<Rightarrow> nat" where
  "subsec_nanos d = d mod 10 ^ 9"

definition as_secs_f64 :: "duration \<Rightarrow> f64" where
  "as_secs_f64 d = f64_of_int (int (as_secs d)) + f64_of_int (int (subsec_nanos d)) / Fin (10 ^ 9)"

definition duration_since :: "instant \<Rightarrow> instant \<Rightarrow> duration" where
  "duration_since later earlier = later - earlier"

text \<open>\<open>Duration * u32\<close> panics (\<open>None\<close>) when the seconds leave the range of \<open>u64\<close>.\<close>

definition duration_mul :: "duration \<Rightarrow> u32 \<Rightarrow> duration option" where
  "duration_mul d k = (if as_secs (d * unat k) < 2 ^ 64 then Some (d * unat k) else None)"

section \<open>Relative error of a rounding\<close>

lemma round_half_even_err: "\<bar>of_int (round_half_even x) - x\<bar> \<le> 1 / 2"
proof -
  have "of_int \<lfloor>x\<rfloor> \<le> x" "x < of_int \<lfloor>x\<rfloor> + 1" by linarith+
  then show ?thesis by (auto simp: round_half_even_def Let_def)
qed

lemma round_rat_rel_err:
  assumes "pow2 (- 1022) \<le> x"
  shows "\<bar>round_rat x - x\<bar> \<le> x / 2 ^ 53"
proof -
  have x: "0 < x" using assms pow2_pos [of "- 1022"] by linarith
  have "pow2 (- 1022) < pow2 (rat_exp x + 1)"
    using assms rat_exp_bounds [OF x] by linarith
  then have "- 1022 \<le> rat_exp x" by (simp add: pow2_less_iff)
  then have ulp: "ulp_exp x = rat_exp x - 52" using x by (simp add: ulp_exp_def)
  let ?e = "ulp_exp x"
  have "round_rat x - x = (of_int (round_half_even (x / pow2 ?e)) - x / pow2 ?e) * pow2 ?e"
    using x by (simp add: round_rat_def Let_def left_diff_distrib)
  then have "\<bar>round_rat x - x\<bar>
      = \<bar>of_int (round_half_even (x / pow2 ?e)) - x / pow2 ?e\<bar> * pow2 ?e"
    by (simp add: abs_mult less_imp_le)
  also have "\<dots> \<le> 1 / 2 * pow2 ?e"
    by (intro mult_right_mono round_half_even_err) (simp add: less_imp_le)
  also have "\<dots> = pow2 (rat_exp x) / 2 ^ 53"
    using pow2_add [of "rat_exp x" "- 52"] by (simp add: ulp pow2_def [of "- 52"])
  also have "\<dots> \<le> x / 2 ^ 53"
    using rat_exp_bounds [OF x] by (simp add: divide_right_mono)
  finally show ?thesis .
qed

lemma round_rat_rel_upper:
  assumes "pow2 (- 1022) \<le> x"
  shows "round_rat x \<le> x * (1 + 1 / 2 ^ 53)"
  using abs_le_D1 [OF round_rat_rel_err [OF assms]] by (simp add: distrib_left)

end
