(* ===== verification/Session_State.thy ===== *)
theory Session_State
  imports Transport Media_Pipeline Kv_Store Std_Time
begin

text \<open>
  State and errors of the session crate (\<open>crates/session/src/state.rs\<close>, \<open>error.rs\<close>,
  \<open>keepalive.rs\<close>): the state a session shows the user interface, the snapshot that carries
  it, and the table that pairs an incoming media socket with the control session it belongs
  to. The table is an instance of \<open>kv_store\<close>; the theorem of this theory is that a binding
  can be taken exactly once and only with both the session id and the token.
\<close>

section \<open>Errors\<close>

datatype session_error =
    SeTransport transport_error
  | HandshakeTimeout
  | Unauthorized
  | IncompatibleProtoVer u32 u32
  | UnexpectedMessage string
  | UnknownMediaBinding
  | MediaHandshakeTimeout
  | SeClosed string

section \<open>State\<close>

datatype transport_tag = TagWifi | TagUsb

datatype session_state_kind =
    Idle
  | Listening u16 u16
  | WifiHandshake
  | UsbHandshake string
  | StReady "transport_tag option"
  | Reconnecting
  | Closed string

fun state_label :: "session_state_kind \<Rightarrow> string" where
  "state_label Idle = ''idle''"
| "state_label (Listening c m) = ''listening''"
| "state_label WifiHandshake = ''handshaking''"
| "state_label (UsbHandshake u) = ''usb_handshake''"
| "state_label (StReady t) = ''ready''"
| "state_label Reconnecting = ''reconnecting''"
| "state_label (Closed r) = ''closed''"

fun state_udid :: "session_state_kind \<Rightarrow> string option" where
  "state_udid (UsbHandshake udid) = Some udid"
| "state_udid _ = None"

record device_snapshot =
  ds_model :: string
  ds_os_ver :: string
  ds_usb3_capable :: bool
  ds_battery_level :: f64
  ds_cameras :: "camera_entry list"

record session_snapshot =
  sn_state :: session_state_kind
  sn_device :: "device_snapshot option"
  sn_last_telemetry :: "telemetry option"

definition snapshot_idle :: session_snapshot where
  "snapshot_idle = \<lparr> sn_state = Idle, sn_device = None, sn_last_telemetry = None \<rparr>"

definition from_device_info :: "device_info \<Rightarrow> device_snapshot" where
  "from_device_info info =
     \<lparr> ds_model = dv_model info, ds_os_ver = dv_os_ver info,
       ds_usb3_capable = dv_usb3_capable info, ds_battery_level = dv_battery_level info,
       ds_cameras = [] \<rparr>"

section \<open>Keepalive constants\<close>

definition KEEPALIVE_INTERVAL :: duration where
  "KEEPALIVE_INTERVAL = from_secs 2"

definition DEAD_PEER_AFTER :: duration where
  "DEAD_PEER_AFTER = from_secs 6"

text \<open>\<open>now_usec\<close>: microseconds since the epoch of a system clock that reads \<open>t\<close> nanoseconds
  after it (\<open>None\<close>: before it), saturated to 64 bits.\<close>

definition now_usec :: "nat option \<Rightarrow> u64" where
  "now_usec t =
     (case t of
        None \<Rightarrow> 0
      | Some ns \<Rightarrow> if ns div 1000 < 2 ^ 64 then word_of_nat (ns div 1000) else - 1)"

section \<open>Pending media bindings\<close>

text \<open>\<open>'snd_half\<close> is the sending half of the channel the media stream is delivered on.\<close>

type_synonym 'snd_half pending_media_bindings = "string \<times> string \<rightharpoonup> 'snd_half"

definition bindings_insert ::
    "string \<Rightarrow> string \<Rightarrow> 'snd_half \<Rightarrow> 'snd_half pending_media_bindings \<Rightarrow> 'snd_half pending_media_bindings" where
  "bindings_insert session_id token sender b = b((session_id, token) \<mapsto> sender)"

definition bindings_take ::
    "string \<Rightarrow> string \<Rightarrow> 'snd_half pending_media_bindings \<Rightarrow> 'snd_half option \<times> 'snd_half pending_media_bindings" where
  "bindings_take session_id token b = (b (session_id, token), b((session_id, token) := None))"

interpretation pending: kv_store
  "Map.empty" "\<lambda>b k. fst (bindings_take (fst k) (snd k) b)"
  "\<lambda>k. bindings_insert (fst k) (snd k)" "\<lambda>k b. snd (bindings_take (fst k) (snd k) b)" "\<lambda>_. True"
  by unfold_locales (auto simp: bindings_take_def bindings_insert_def)

lemma now_usec_mono: "s \<le> t \<Longrightarrow> now_usec (Some s) \<le> now_usec (Some t)"
  using div_le_mono [of s t 1000]
  by (auto simp: now_usec_def word_le_nat_alt unat_of_nat unsigned_minus_1_eq_mask mask_eq_exp_minus_1)

text \<open>A history of the table: \<open>Some\<close> is an insert under a key, \<open>None\<close> a take.\<close>

fun run_bindings ::
    "((string \<times> string) \<times> 'snd_half option) list \<Rightarrow> 'snd_half pending_media_bindings
     \<Rightarrow> 'snd_half pending_media_bindings" where
  "run_bindings [] b = b"
| "run_bindings (((sid, tok), Some ch) # ops) b = run_bindings ops (bindings_insert sid tok ch b)"
| "run_bindings (((sid, tok), None) # ops) b = run_bindings ops (snd (bindings_take sid tok b))"

lemma run_bindings_apply_ops: "run_bindings ops b = pending.apply_ops ops b"
  by (induction ops b rule: run_bindings.induct) simp_all

text \<open>A media binding is delivered once, to the right session: after any history of
  inserts and takes, taking with a session id and token returns the channel of the last
  insert under exactly that pair unless it was taken since, and a second take finds nothing.\<close>

theorem media_binding_taken_once:
  "fst (bindings_take sid tok (run_bindings ops Map.empty))
     = (case map_of (rev ops) (sid, tok) of None \<Rightarrow> None | Some r \<Rightarrow> r)
   \<and> fst (bindings_take sid tok (snd (bindings_take sid tok b))) = None"
  using pending.lookup_apply_ops [where s = Map.empty and ops = ops and k = "(sid, tok)"]
    pending.lookup_delete [where s = b and k = "(sid, tok)" and k' = "(sid, tok)"]
    pending.lookup_empty [where k = "(sid, tok)"]
  by (simp add: run_bindings_apply_ops bindings_take_def split: option.split)

end
