(* ===== verification/Session_Handshake.thy ===== *)
theory Session_Handshake
  imports Session_State
begin

text \<open>
  The handshakes of the session crate (\<open>crates/session/src/handshake.rs\<close>,
  \<open>pairing.rs\<close>): the server side of the control handshake over Wi-Fi (pairing token) and
  over USB (pairing key), and the hello that binds a media socket. A read that stays pending
  is a read that its deadline cuts off (\<open>tokio::time::timeout\<close>): the peer sent no complete
  frame in time. The UUID of a new session is an argument.

  The locale \<open>credential_handshake\<close> is the contract both handshakes meet: which peers are
  accepted and what is written to them. The theorems: no session without the protocol version
  and the credential, acceptance of every peer that presents them, and exactly which frames a
  rejected peer is sent.
\<close>

section \<open>The code\<close>

definition HANDSHAKE_TIMEOUT :: duration where
  "HANDSHAKE_TIMEOUT = from_secs 5"

record accepted_session =
  ac_session_id :: string
  ac_token :: string
  ac_hello :: hello

text \<open>\<open>timeout(HANDSHAKE_TIMEOUT, stream.recv())\<close> with both error conversions.\<close>

definition hs_recv ::
    "json_text \<Rightarrow> control_stream \<Rightarrow> (session_error + control_envelope) \<times> control_stream" where
  "hs_recv J s =
     (case cs_recv J s of
        (Pending, s1) \<Rightarrow> (Inl HandshakeTimeout, s1)
      | (Ready (Inl e), s1) \<Rightarrow> (Inl (SeTransport e), s1)
      | (Ready (Inr env), s1) \<Rightarrow> (Inr env, s1))"

definition hs_send ::
    "json_text \<Rightarrow> control_envelope \<Rightarrow> control_stream \<Rightarrow> (session_error + unit) \<times> control_stream" where
  "hs_send J env s =
     (case cs_send J env s of
        (Inl e, s1) \<Rightarrow> (Inl (SeTransport e), s1)
      | (Inr _, s1) \<Rightarrow> (Inr (), s1))"

definition error_envelope :: "u64 \<Rightarrow> error_code \<Rightarrow> string \<Rightarrow> control_envelope" where
  "error_envelope ack code message =
     \<lparr> ev_seq = 0, ev_ack = Some ack,
       ev_body = ErrorMsg \<lparr> em_code = code, em_message = message \<rparr> \<rparr>"

definition send_error ::
    "json_text \<Rightarrow> u64 \<Rightarrow> error_code \<Rightarrow> string \<Rightarrow> control_stream
     \<Rightarrow> (session_error + unit) \<times> control_stream" where
  "send_error J ack code message s = hs_send J (error_envelope ack code message) s"

text \<open>\<open>send_error(..).await?; return Err(err)\<close>.\<close>

definition reject ::
    "json_text \<Rightarrow> u64 \<Rightarrow> error_code \<Rightarrow> string \<Rightarrow> session_error \<Rightarrow> control_stream
     \<Rightarrow> (session_error + 'a) \<times> control_stream" where
  "reject J ack code message err s =
     (case send_error J ack code message s of
        (Inl e, s1) \<Rightarrow> (Inl e, s1)
      | (Inr _, s1) \<Rightarrow> (Inl err, s1))"

definition agreed_caps :: "capability list \<Rightarrow> hello \<Rightarrow> capability list" where
  "agreed_caps server_caps hello = filter (\<lambda>c. \<exists>h \<in> set (hl_caps hello). h = c) server_caps"

definition hello_ack_envelope :: "u64 \<Rightarrow> capability list \<Rightarrow> control_envelope" where
  "hello_ack_envelope ack caps =
     \<lparr> ev_seq = 0, ev_ack = Some ack,
       ev_body = HelloAck \<lparr> ha_proto_ver = PROTO_VER, ha_caps = caps \<rparr> \<rparr>"

definition auth_ok_envelope :: "u64 \<Rightarrow> string \<Rightarrow> control_envelope" where
  "auth_ok_envelope ack session_id =
     \<lparr> ev_seq = 1, ev_ack = Some ack, ev_body = AuthOk \<lparr> ao_session_id = session_id \<rparr> \<rparr>"

text \<open>The HELLO / HELLO_ACK exchange both handshakes start with.\<close>

definition hello_exchange ::
    "json_text \<Rightarrow> capability list \<Rightarrow> control_stream \<Rightarrow> (session_error + hello) \<times> control_stream" where
  "hello_exchange J server_caps s =
     (case hs_recv J s of
        (Inl e, s1) \<Rightarrow> (Inl e, s1)
      | (Inr hello_env, s1) \<Rightarrow>
          (case ev_body hello_env of
             Hello hello \<Rightarrow>
               if hl_proto_ver hello \<noteq> PROTO_VER
               then reject J (ev_seq hello_env) IncompatibleVersion ''proto version mismatch''
                      (IncompatibleProtoVer (hl_proto_ver hello) PROTO_VER) s1
               else (case hs_send J (hello_ack_envelope (ev_seq hello_env)
                                        (agreed_caps server_caps hello)) s1 of
                       (Inl e, s2) \<Rightarrow> (Inl e, s2)
                     | (Inr _, s2) \<Rightarrow> (Inr hello, s2))
           | other \<Rightarrow> reject J (ev_seq hello_env) BadRequest ''expected HELLO''
                        (UnexpectedMessage ''expected HELLO'') s1))"

text \<open>The receipt of AUTH, with the number its reply acknowledges.\<close>

definition auth_receive ::
    "json_text \<Rightarrow> control_stream \<Rightarrow> (session_error + u64 \<times> auth) \<times> control_stream" where
  "auth_receive J s =
     (case hs_recv J s of
        (Inl e, s1) \<Rightarrow> (Inl e, s1)
      | (Inr auth_env, s1) \<Rightarrow>
          (case ev_body auth_env of
             Auth a \<Rightarrow> (Inr (ev_seq auth_env, a), s1)
           | other \<Rightarrow> reject J (ev_seq auth_env) BadRequest ''expected AUTH''
                        (UnexpectedMessage ''expected AUTH'') s1))"

text \<open>The AUTH_OK reply.\<close>

definition auth_finish ::
    "json_text \<Rightarrow> string \<Rightarrow> hello \<Rightarrow> u64 \<Rightarrow> string \<Rightarrow> control_stream
     \<Rightarrow> (session_error + accepted_session) \<times> control_stream" where
  "auth_finish J uuid hello ack credential s =
     (let session_id = ''sess-'' @ uuid in
      case hs_send J (auth_ok_envelope ack session_id) s of
        (Inl e, s1) \<Rightarrow> (Inl e, s1)
      | (Inr _, s1) \<Rightarrow>
          (Inr \<lparr> ac_session_id = session_id, ac_token = credential, ac_hello = hello \<rparr>, s1))"

definition accept_control ::
    "json_text \<Rightarrow> string \<Rightarrow> string \<Rightarrow> capability list \<Rightarrow> control_stream
     \<Rightarrow> (session_error + accepted_session) \<times> control_stream" where
  "accept_control J uuid expected_token server_caps s =
     (case hello_exchange J server_caps s of
        (Inl e, s1) \<Rightarrow> (Inl e, s1)
      | (Inr hello, s1) \<Rightarrow>
          (case auth_receive J s1 of
             (Inl e, s2) \<Rightarrow> (Inl e, s2)
           | (Inr (ack, auth), s2) \<Rightarrow>
               (case auth of
                  AuthPairingKey _ \<Rightarrow> reject J ack EcUnauthorized ''bad token'' Unauthorized s2
                | AuthToken presented_token \<Rightarrow>
                    if presented_token \<noteq> expected_token
                    then reject J ack EcUnauthorized ''bad token'' Unauthorized s2
                    else auth_finish J uuid hello ack presented_token s2)))"

definition accept_control_usb ::
    "json_text \<Rightarrow> string \<Rightarrow> string \<Rightarrow> capability list \<Rightarrow> control_stream
     \<Rightarrow> (session_error + accepted_session) \<times> control_stream" where
  "accept_control_usb J uuid expected_pairing_key_b64 server_caps s =
     (case hello_exchange J server_caps s of
        (Inl e, s1) \<Rightarrow> (Inl e, s1)
      | (Inr hello, s1) \<Rightarrow>
          (case auth_receive J s1 of
             (Inl e, s2) \<Rightarrow> (Inl e, s2)
           | (Inr (ack, auth), s2) \<Rightarrow>
               (case auth of
                  AuthToken _ \<Rightarrow>
                    reject J ack EcUnauthorized ''USB session requires pairingKey, not token''
                      Unauthorized s2
                | AuthPairingKey presented_key \<Rightarrow>
                    if presented_key \<noteq> expected_pairing_key_b64
                    then reject J ack EcUnauthorized ''pairing key mismatch'' Unauthorized s2
                    else auth_finish J uuid hello ack presented_key s2)))"

section \<open>The media hello\<close>

definition MEDIA_HANDSHAKE_TIMEOUT :: duration where
  "MEDIA_HANDSHAKE_TIMEOUT = from_secs 5"

record media_binding =
  mb_session_id :: string
  mb_token :: string

definition mb_read_exact ::
    "nat \<Rightarrow> wire \<Rightarrow> (session_error + bytes) \<times> wire" where
  "mb_read_exact n w =
     (case read_exact n w of
        (Pending, w1) \<Rightarrow> (Inl MediaHandshakeTimeout, w1)
      | (Ready (Inl e), w1) \<Rightarrow> (Inl (SeTransport (Io e)), w1)
      | (Ready (Inr bs), w1) \<Rightarrow> (Inr bs, w1))"

definition read_media_hello ::
    "json_text \<Rightarrow> media_stream \<Rightarrow> (session_error + media_binding) \<times> media_stream" where
  "read_media_hello J s =
     (case mb_read_exact 4 (ms_wire s) of
        (Inl e, w1) \<Rightarrow> (Inl e, s\<lparr>ms_wire := w1\<rparr>)
      | (Inr prefix, w1) \<Rightarrow>
          (case mb_read_exact (unat (from_be_bytes32 prefix)) w1 of
             (Inl e, w2) \<Rightarrow> (Inl e, s\<lparr>ms_wire := w2\<rparr>)
           | (Inr buf, w2) \<Rightarrow>
               (case from_slice J buf of
                  None \<Rightarrow> (Inl (SeTransport JsonError), s\<lparr>ms_wire := w2\<rparr>)
                | Some env \<Rightarrow>
                    (case ev_body env of
                       MediaHello m \<Rightarrow>
                         (Inr \<lparr> mb_session_id = mhl_session_id m, mb_token = mhl_token m \<rparr>,
                          s\<lparr>ms_wire := w2\<rparr>)
                     | other \<Rightarrow>
                         (Inl (UnexpectedMessage ''expected MEDIA_HELLO''), s\<lparr>ms_wire := w2\<rparr>)))))"

definition media_hello_envelope :: "media_binding \<Rightarrow> control_envelope" where
  "media_hello_envelope binding =
     \<lparr> ev_seq = 0, ev_ack = None,
       ev_body = MediaHello \<lparr> mhl_session_id = mb_session_id binding, mhl_token = mb_token binding \<rparr> \<rparr>"

definition write_media_hello ::
    "json_text \<Rightarrow> media_binding \<Rightarrow> media_stream \<Rightarrow> (session_error + unit) \<times> media_stream" where
  "write_media_hello J binding s =
     (case to_vec J (media_hello_envelope binding) of
        None \<Rightarrow> (Inl (SeTransport JsonError), s)
      | Some json \<Rightarrow>
          (case write_all (to_be_bytes32 (word_of_nat (length json))) (ms_wire s) of
             (Inl e, w1) \<Rightarrow> (Inl (SeTransport (Io e)), s\<lparr>ms_wire := w1\<rparr>)
           | (Inr _, w1) \<Rightarrow>
               (case write_all json w1 of
                  (Inl e, w2) \<Rightarrow> (Inl (SeTransport (Io e)), s\<lparr>ms_wire := w2\<rparr>)
                | (Inr _, w2) \<Rightarrow> (Inr (), s\<lparr>ms_wire := w2\<rparr>))))"

section \<open>Steps of the exchange\<close>

lemma hs_recv_Inr: "hs_recv J s = (Inr env, s1) \<longleftrightarrow> cs_recv J s = (Ready (Inr env), s1)"
  by (auto simp: hs_recv_def split: prod.splits poll.splits sum.splits)

lemma reject_Inl: "\<exists>e. fst (reject J ack code msg err s) = Inl e"
  by (auto simp: reject_def split: prod.splits sum.splits)

lemma reject_not_Inr [simp]: "reject J ack code msg err s \<noteq> (Inr x, s')"
  using reject_Inl [of J ack code msg err s] by (metis Inl_Inr_False fst_conv)

lemma hello_exchange_Inr:
  assumes "hello_exchange J caps s = (Inr h, s2)"
  obtains env s1 where "cs_recv J s = (Ready (Inr env), s1)" "ev_body env = Hello h"
    "hl_proto_ver h = PROTO_VER"
    "cs_send J (hello_ack_envelope (ev_seq env) (agreed_caps caps h)) s1 = (Inr (), s2)"
  using assms
  by (auto simp: hello_exchange_def hs_send_def hs_recv_Inr
      split: prod.splits sum.splits control_message.splits if_splits)

lemma auth_receive_Inr:
  assumes "auth_receive J s = (Inr (ack, a), s1)"
  obtains env where "cs_recv J s = (Ready (Inr env), s1)" "ev_body env = Auth a" "ev_seq env = ack"
  using assms
  by (auto simp: auth_receive_def hs_recv_Inr split: prod.splits sum.splits control_message.splits)

lemma auth_finish_Inr:
  "auth_finish J uuid h ack key s = (Inr acc, s1) \<longleftrightarrow>
   cs_send J (auth_ok_envelope ack (''sess-'' @ uuid)) s = (Inr (), s1) \<and>
   acc = \<lparr> ac_session_id = ''sess-'' @ uuid, ac_token = key, ac_hello = h \<rparr>"
  by (auto simp: auth_finish_def hs_send_def Let_def split: prod.splits sum.splits)

text \<open>The stream after the peer's bytes up to \<open>rest\<close> were read and \<open>es\<close> were written.\<close>

definition exchanged :: "json_text \<Rightarrow> control_envelope list \<Rightarrow> bytes \<Rightarrow> control_stream \<Rightarrow> control_stream" where
  "exchanged J es rest s =
     s\<lparr>cst_wire := (cst_wire s)\<lparr>rx := rest, tx := tx (cst_wire s) @ concat (map (wire_bytes J) es)\<rparr>\<rparr>"

lemma recv_exchanged:
  "carried J e \<Longrightarrow> cs_recv J (exchanged J es (wire_bytes J e @ rest) s)
     = (Ready (Inr e), exchanged J es rest s)"
  by (subst recv_carried [where e = e and rest = rest]) (simp_all add: exchanged_def)

lemma send_exchanged:
  "carried J e \<Longrightarrow> tx_room (cst_wire s) = None \<Longrightarrow>
   cs_send J e (exchanged J es rest s) = (Inr (), exchanged J (es @ [e]) rest s)"
  by (subst send_carried) (simp_all add: exchanged_def)

lemma exchanged_init: "rx (cst_wire s) = bs \<Longrightarrow> exchanged J [] bs s = s"
  by (cases s; cases "cst_wire s") (simp add: exchanged_def)

lemma hello_exchange_ok:
  assumes "carried J e" "ev_body e = Hello h" "hl_proto_ver h = PROTO_VER"
    "carried J (hello_ack_envelope (ev_seq e) (agreed_caps caps h))" "tx_room (cst_wire s) = None"
  shows "hello_exchange J caps (exchanged J es (wire_bytes J e @ rest) s) =
    (Inr h, exchanged J (es @ [hello_ack_envelope (ev_seq e) (agreed_caps caps h)]) rest s)"
  using assms
  by (simp add: hello_exchange_def hs_recv_def recv_exchanged hs_send_def send_exchanged)

lemma hello_exchange_start:
  assumes "carried J e" "ev_body e = Hello h" "hl_proto_ver h = PROTO_VER"
    "carried J (hello_ack_envelope (ev_seq e) (agreed_caps caps h))" "tx_room (cst_wire s) = None"
    "rx (cst_wire s) = wire_bytes J e @ rest"
  shows "hello_exchange J caps s =
    (Inr h, exchanged J [hello_ack_envelope (ev_seq e) (agreed_caps caps h)] rest s)"
  using hello_exchange_ok [OF assms(1-5), of "[]" rest] exchanged_init [OF assms(6), of J] by simp

lemma auth_receive_ok:
  assumes "carried J e" "ev_body e = Auth a"
  shows "auth_receive J (exchanged J es (wire_bytes J e @ rest) s) =
    (Inr (ev_seq e, a), exchanged J es rest s)"
  using assms by (simp add: auth_receive_def hs_recv_def recv_exchanged)

lemma reject_ok:
  assumes "carried J (error_envelope ack code msg)" "tx_room (cst_wire s) = None"
  shows "reject J ack code msg err (exchanged J es rest s) =
    (Inl err, exchanged J (es @ [error_envelope ack code msg]) rest s)"
  using assms by (simp add: reject_def send_error_def hs_send_def send_exchanged)

lemma auth_finish_ok:
  assumes "carried J (auth_ok_envelope ack (''sess-'' @ uuid))" "tx_room (cst_wire s) = None"
  shows "auth_finish J uuid h ack key (exchanged J es rest s) =
    (Inr \<lparr> ac_session_id = ''sess-'' @ uuid, ac_token = key, ac_hello = h \<rparr>,
     exchanged J (es @ [auth_ok_envelope ack (''sess-'' @ uuid)]) rest s)"
  using assms by (simp add: auth_finish_def hs_send_def send_exchanged Let_def)

section \<open>The contract of a handshake\<close>

text \<open>
  \<open>cred key\<close> is the AUTH body that presents the credential \<open>key\<close>; \<open>refusal a\<close> is the
  message a peer that presents \<open>a\<close> instead is sent.
\<close>

locale credential_handshake =
  fixes accept :: "json_text \<Rightarrow> string \<Rightarrow> string \<Rightarrow> capability list \<Rightarrow> control_stream
      \<Rightarrow> (session_error + accepted_session) \<times> control_stream"
    and cred :: "string \<Rightarrow> auth"
    and refusal :: "auth \<Rightarrow> string"
  assumes hello_fail:
      "hello_exchange J caps s = (Inl e, s1) \<Longrightarrow> accept J uuid key caps s = (Inl e, s1)"
    and auth_fail:
      "hello_exchange J caps s = (Inr h, s1) \<Longrightarrow> auth_receive J s1 = (Inl e, s2) \<Longrightarrow>
       accept J uuid key caps s = (Inl e, s2)"
    and auth_good:
      "hello_exchange J caps s = (Inr h, s1) \<Longrightarrow> auth_receive J s1 = (Inr (ack, cred key), s2) \<Longrightarrow>
       accept J uuid key caps s = auth_finish J uuid h ack key s2"
    and auth_bad:
      "hello_exchange J caps s = (Inr h, s1) \<Longrightarrow> auth_receive J s1 = (Inr (ack, a), s2) \<Longrightarrow>
       a \<noteq> cred key \<Longrightarrow>
       accept J uuid key caps s = reject J ack EcUnauthorized (refusal a) Unauthorized s2"
begin

lemma accept_sound:
  assumes "accept J uuid key caps s = (Inr acc, s')"
  shows "\<exists>e1 s1 s2 e2 s3.
     cs_recv J s = (Ready (Inr e1), s1) \<and> ev_body e1 = Hello (ac_hello acc) \<and>
     hl_proto_ver (ac_hello acc) = PROTO_VER \<and>
     cs_send J (hello_ack_envelope (ev_seq e1) (agreed_caps caps (ac_hello acc))) s1 = (Inr (), s2) \<and>
     cs_recv J s2 = (Ready (Inr e2), s3) \<and> ev_body e2 = Auth (cred key) \<and>
     cs_send J (auth_ok_envelope (ev_seq e2) (ac_session_id acc)) s3 = (Inr (), s') \<and>
     ac_token acc = key \<and> ac_session_id acc = ''sess-'' @ uuid"
proof -
  obtain r1 s2 where h: "hello_exchange J caps s = (r1, s2)" by fastforce
  from assms hello_fail [of J caps s _ s2 uuid key] h obtain hl where r1: "r1 = Inr hl"
    by (cases r1) auto
  obtain r2 s3 where a: "auth_receive J s2 = (r2, s3)" by fastforce
  from assms auth_fail [of J caps s hl s2 _ s3 uuid key] h r1 a obtain ack au where r2: "r2 = Inr (ack, au)"
    by (cases r2) auto
  have au: "au = cred key"
    using assms auth_bad [of J caps s hl s2 ack au s3 key uuid] h r1 a r2
    by (metis reject_not_Inr)
  have "auth_finish J uuid hl ack key s3 = (Inr acc, s')"
    using assms auth_good [of J caps s hl s2 ack key s3 uuid] h r1 a r2 au by simp
  then show ?thesis
    using hello_exchange_Inr [OF h [unfolded r1]] auth_receive_Inr [OF a [unfolded r2 au]]
    unfolding auth_finish_Inr by (metis accepted_session.select_convs)
qed

lemma accept_complete:
  assumes "carried J e1" "ev_body e1 = Hello h" "hl_proto_ver h = PROTO_VER"
    and "carried J e2" "ev_body e2 = Auth (cred key)"
    and "carried J (hello_ack_envelope (ev_seq e1) (agreed_caps caps h))"
    and "carried J (auth_ok_envelope (ev_seq e2) (''sess-'' @ uuid))"
    and "tx_room (cst_wire s) = None" "rx (cst_wire s) = wire_bytes J e1 @ wire_bytes J e2 @ rest"
  shows "accept J uuid key caps s =
    (Inr \<lparr> ac_session_id = ''sess-'' @ uuid, ac_token = key, ac_hello = h \<rparr>,
     exchanged J [hello_ack_envelope (ev_seq e1) (agreed_caps caps h),
                  auth_ok_envelope (ev_seq e2) (''sess-'' @ uuid)] rest s)"
proof -
  have h: "hello_exchange J caps s =
      (Inr h, exchanged J [hello_ack_envelope (ev_seq e1) (agreed_caps caps h)] (wire_bytes J e2 @ rest) s)"
    by (rule hello_exchange_start [OF assms(1,2,3,6,8,9)])
  show ?thesis
    using auth_good [OF h auth_receive_ok [OF assms(4,5)]] auth_finish_ok [OF assms(7,8)] by simp
qed

lemma accept_wrong_credential:
  assumes "carried J e1" "ev_body e1 = Hello h" "hl_proto_ver h = PROTO_VER"
    and "carried J e2" "ev_body e2 = Auth a" "a \<noteq> cred key"
    and "carried J (hello_ack_envelope (ev_seq e1) (agreed_caps caps h))"
    and "carried J (error_envelope (ev_seq e2) EcUnauthorized (refusal a))"
    and "tx_room (cst_wire s) = None" "rx (cst_wire s) = wire_bytes J e1 @ wire_bytes J e2 @ rest"
  shows "accept J uuid key caps s =
    (Inl Unauthorized,
     exchanged J [hello_ack_envelope (ev_seq e1) (agreed_caps caps h),
                  error_envelope (ev_seq e2) EcUnauthorized (refusal a)] rest s)"
proof -
  have h: "hello_exchange J caps s =
      (Inr h, exchanged J [hello_ack_envelope (ev_seq e1) (agreed_caps caps h)] (wire_bytes J e2 @ rest) s)"
    by (rule hello_exchange_start [OF assms(1,2,3,7,9,10)])
  show ?thesis
    by (simp add: auth_bad [OF h auth_receive_ok [OF assms(4,5)] assms(6)] reject_ok [OF assms(8,9)])
qed

end

fun wifi_refusal :: "auth \<Rightarrow> string" where
  "wifi_refusal a = ''bad token''"

fun usb_refusal :: "auth \<Rightarrow> string" where
  "usb_refusal (AuthToken t) = ''USB session requires pairingKey, not token''"
| "usb_refusal (AuthPairingKey k) = ''pairing key mismatch''"

interpretation wifi: credential_handshake accept_control AuthToken wifi_refusal
  by unfold_locales (auto simp: accept_control_def split: auth.splits)

interpretation usb: credential_handshake accept_control_usb AuthPairingKey usb_refusal
  by unfold_locales (auto simp: accept_control_usb_def split: auth.splits)

lemma agreed_caps_both: "set (agreed_caps server_caps h) = set server_caps \<inter> set (hl_caps h)"
  by (auto simp: agreed_caps_def)

lemma reject_sent:
  assumes "reject J ack code msg err s = (r, s')"
  shows "cst_peer s' = cst_peer s" and "rx (cst_wire s') = rx (cst_wire s)"
  using assms
  by (auto simp: reject_def send_error_def hs_send_def cs_send_def write_frame_def write_all_def
      split: prod.splits sum.splits option.splits if_splits)

lemma read_media_hello_ok:
  assumes "prints J (enc_envelope (media_hello_envelope b)) bs" and "length bs < 2 ^ 32"
    and "rx (ms_wire s) = frame_bytes bs @ rest"
  shows "read_media_hello J s = (Inr b, s\<lparr>ms_wire := (ms_wire s)\<lparr>rx := rest\<rparr>\<rparr>)"
proof -
  have "from_slice J bs = Some (media_hello_envelope b)"
    using prints_env [OF assms(1)] by (simp add: env_ok_def media_hello_envelope_def)
  moreover have "unat (from_be_bytes32 (to_be_bytes32 (word_of_nat (length bs)))) = length bs"
    using assms(2) by (simp add: unat_of_nat)
  ultimately show ?thesis
    using assms(3)
    by (simp add: read_media_hello_def mb_read_exact_def read_exact_def frame_bytes_def
        media_hello_envelope_def)
qed

lemma write_media_hello_ok:
  assumes "prints J (enc_envelope (media_hello_envelope b)) bs" and "tx_room (ms_wire s) = None"
  shows "write_media_hello J b s =
    (Inr (), s\<lparr>ms_wire := (ms_wire s)\<lparr>tx := tx (ms_wire s) @ frame_bytes bs\<rparr>\<rparr>)"
  using assms
  by (simp add: write_media_hello_def to_vec_def prints_def write_all_def frame_bytes_def)

text \<open>The same for an envelope the text level carries.\<close>

lemma media_hello_carried:
  assumes "carried J (media_hello_envelope b)"
  shows "tx_room (ms_wire s) = None \<Longrightarrow> write_media_hello J b s =
      (Inr (), s\<lparr>ms_wire := (ms_wire s)\<lparr>tx := tx (ms_wire s) @ wire_bytes J (media_hello_envelope b)\<rparr>\<rparr>)"
    and "rx (ms_wire s) = wire_bytes J (media_hello_envelope b) @ rest \<Longrightarrow>
      read_media_hello J s = (Inr b, s\<lparr>ms_wire := (ms_wire s)\<lparr>rx := rest\<rparr>\<rparr>)"
proof -
  obtain bs where v: "to_vec J (media_hello_envelope b) = Some bs"
    and p: "prints J (enc_envelope (media_hello_envelope b)) bs" and "length bs \<le> MAX_PAYLOAD_USIZE"
    using assms by (auto simp: carried_def split: option.splits)
  then have l: "length bs < 2 ^ 32" by (simp add: MAX_PAYLOAD_USIZE_val)
  show "tx_room (ms_wire s) = None \<Longrightarrow> write_media_hello J b s =
      (Inr (), s\<lparr>ms_wire := (ms_wire s)\<lparr>tx := tx (ms_wire s) @ wire_bytes J (media_hello_envelope b)\<rparr>\<rparr>)"
    using write_media_hello_ok [OF p] v by (simp add: wire_bytes_def)
  show "rx (ms_wire s) = wire_bytes J (media_hello_envelope b) @ rest \<Longrightarrow>
      read_media_hello J s = (Inr b, s\<lparr>ms_wire := (ms_wire s)\<lparr>rx := rest\<rparr>\<rparr>)"
    using read_media_hello_ok [OF p l] v by (simp add: wire_bytes_def)
qed

section \<open>Properties\<close>

text \<open>C1. No Wi-Fi session without the token: if the handshake accepts, the first message the
  peer sent was a HELLO with the server's protocol version, the next one after the HELLO_ACK
  was an AUTH carrying exactly the expected token, AUTH_OK was written, and the session
  carries that token and the fresh id.\<close>

theorem wifi_handshake_sound:
  assumes "accept_control J uuid token caps s = (Inr acc, s')"
  shows "\<exists>e1 s1 s2 e2 s3.
     cs_recv J s = (Ready (Inr e1), s1) \<and> ev_body e1 = Hello (ac_hello acc) \<and>
     hl_proto_ver (ac_hello acc) = PROTO_VER \<and>
     cs_send J (hello_ack_envelope (ev_seq e1) (agreed_caps caps (ac_hello acc))) s1 = (Inr (), s2) \<and>
     cs_recv J s2 = (Ready (Inr e2), s3) \<and> ev_body e2 = Auth (AuthToken token) \<and>
     cs_send J (auth_ok_envelope (ev_seq e2) (ac_session_id acc)) s3 = (Inr (), s') \<and>
     ac_token acc = token \<and> ac_session_id acc = ''sess-'' @ uuid"
  using assms by (rule wifi.accept_sound)

text \<open>The peer's side of an example run, and the codec that carries its messages.\<close>

definition peer_hello_body :: hello where
  "peer_hello_body = \<lparr> hl_proto_ver = 1, hl_app = ''clearcam'',
     hl_device = \<lparr> di_model = ''iPhone'', di_os_ver = ''17'' \<rparr>,
     hl_session_id = ''x'', hl_caps = [Hevc] \<rparr>"

definition peer_hello :: control_envelope where
  "peer_hello = \<lparr> ev_seq = 1, ev_ack = None, ev_body = Hello peer_hello_body \<rparr>"

definition peer_auth :: "auth \<Rightarrow> control_envelope" where
  "peer_auth a = \<lparr> ev_seq = 2, ev_ack = None, ev_body = Auth a \<rparr>"

definition example_envelopes :: "control_envelope list" where
  "example_envelopes =
     [peer_hello, peer_auth (AuthToken ''tok''), peer_auth (AuthPairingKey ''key''),
      hello_ack_envelope 1 [Hevc], auth_ok_envelope 2 ''sess-u1'',
      error_envelope 2 EcUnauthorized ''bad token'',
      error_envelope 2 EcUnauthorized ''pairing key mismatch'']"

definition example_text :: json_text where
  "example_text = table_text (map enc_envelope example_envelopes)"

lemma example_carried: "e \<in> set example_envelopes \<Longrightarrow> carried example_text e"
  unfolding example_text_def
  by (rule carried_table)
    (auto simp: example_envelopes_def env_ok_def peer_hello_def peer_hello_body_def peer_auth_def hello_ack_envelope_def
      auth_ok_envelope_def error_envelope_def cap_ok_def cap_from_def)

definition example_stream :: "auth \<Rightarrow> control_stream" where
  "example_stream a =
     idle_stream (wire_bytes example_text peer_hello @ wire_bytes example_text (peer_auth a) @ [])"

lemma example_facts [simp]:
  "ev_seq peer_hello = 1" "ev_body peer_hello = Hello peer_hello_body"
  "hl_proto_ver peer_hello_body = PROTO_VER" "ev_seq (peer_auth a) = 2" "ev_body (peer_auth a) = Auth a"
  "agreed_caps [Hevc, H264] peer_hello_body = [Hevc]"
  "tx_room (cst_wire (example_stream a)) = None" "tx (cst_wire (example_stream a)) = []"
  "rx (cst_wire (example_stream a)) =
     wire_bytes example_text peer_hello @ wire_bytes example_text (peer_auth a) @ []"
  by (simp_all add: peer_hello_def peer_hello_body_def PROTO_VER_def peer_auth_def agreed_caps_def
      example_stream_def idle_stream_def)

lemma example_members [simp]:
  "carried example_text peer_hello" "carried example_text (peer_auth (AuthToken ''tok''))"
  "carried example_text (peer_auth (AuthPairingKey ''key''))"
  "carried example_text (hello_ack_envelope 1 [Hevc])"
  "carried example_text (auth_ok_envelope 2 ''sess-u1'')"
  "carried example_text (error_envelope 2 EcUnauthorized ''bad token'')"
  "carried example_text (error_envelope 2 EcUnauthorized ''pairing key mismatch'')"
  by (simp_all add: example_carried example_envelopes_def)

lemma example_accept:
  "accept_control example_text ''u1'' ''tok'' [Hevc, H264] (example_stream (AuthToken ''tok'')) =
   (Inr \<lparr> ac_session_id = ''sess-u1'', ac_token = ''tok'', ac_hello = peer_hello_body \<rparr>,
    exchanged example_text [hello_ack_envelope 1 [Hevc], auth_ok_envelope 2 ''sess-u1''] []
      (example_stream (AuthToken ''tok'')))"
  using wifi.accept_complete [of example_text peer_hello peer_hello_body "peer_auth (AuthToken ''tok'')" "''tok''"
      "[Hevc, H264]" "''u1''" "example_stream (AuthToken ''tok'')" "[]"]
  by simp

theorem wifi_handshake_sound_witness:
  "\<exists>e2 s2 s3. cs_recv example_text s2 = (Ready (Inr e2), s3) \<and> ev_body e2 = Auth (AuthToken ''tok'')"
  using wifi_handshake_sound [OF example_accept] by blast

text \<open>C11. Every peer with the right version and token is accepted, over Wi-Fi: the server
  writes exactly HELLO_ACK, with the capabilities both sides have, and AUTH_OK, and leaves
  the bytes that follow AUTH unread.\<close>

theorem wifi_handshake_complete:
  assumes "carried J e1" "ev_body e1 = Hello h" "hl_proto_ver h = PROTO_VER"
    and "carried J e2" "ev_body e2 = Auth (AuthToken token)"
    and "carried J (hello_ack_envelope (ev_seq e1) (agreed_caps caps h))"
    and "carried J (auth_ok_envelope (ev_seq e2) (''sess-'' @ uuid))"
    and "tx_room (cst_wire s) = None" "rx (cst_wire s) = wire_bytes J e1 @ wire_bytes J e2 @ rest"
  shows "accept_control J uuid token caps s =
      (Inr \<lparr> ac_session_id = ''sess-'' @ uuid, ac_token = token, ac_hello = h \<rparr>,
       exchanged J [hello_ack_envelope (ev_seq e1) (agreed_caps caps h),
                    auth_ok_envelope (ev_seq e2) (''sess-'' @ uuid)] rest s)
    \<and> set (agreed_caps caps h) = set caps \<inter> set (hl_caps h)"
  using wifi.accept_complete [OF assms] agreed_caps_both by blast

theorem wifi_handshake_complete_witness:
  "fst (accept_control example_text ''u1'' ''tok'' [Hevc, H264] (example_stream (AuthToken ''tok'')))
   = Inr \<lparr> ac_session_id = ''sess-u1'', ac_token = ''tok'', ac_hello = peer_hello_body \<rparr>"
  using wifi_handshake_complete [of example_text peer_hello peer_hello_body
      "peer_auth (AuthToken ''tok'')" "''tok''" "[Hevc, H264]" "''u1''"
      "example_stream (AuthToken ''tok'')" "[]"]
  by simp

text \<open>C12. A USB session needs the pairing key: a peer with the right version whose AUTH carries
  anything but the stored pairing key, a token included, is refused; it is sent HELLO_ACK and
  one ERROR \<open>unauthorized\<close>, never AUTH_OK, and the bytes after its AUTH stay unread.\<close>

theorem usb_handshake_needs_key:
  assumes "carried J e1" "ev_body e1 = Hello h" "hl_proto_ver h = PROTO_VER"
    and "carried J e2" "ev_body e2 = Auth a"
    and "carried J (hello_ack_envelope (ev_seq e1) (agreed_caps caps h))"
    and "carried J (error_envelope (ev_seq e2) EcUnauthorized (usb_refusal a))"
    and "tx_room (cst_wire s) = None" "rx (cst_wire s) = wire_bytes J e1 @ wire_bytes J e2 @ rest"
    and "a \<noteq> AuthPairingKey key"
  shows "accept_control_usb J uuid key caps s =
    (Inl Unauthorized,
     exchanged J [hello_ack_envelope (ev_seq e1) (agreed_caps caps h),
                  error_envelope (ev_seq e2) EcUnauthorized (usb_refusal a)] rest s)"
  using assms by (intro usb.accept_wrong_credential)

theorem usb_handshake_needs_key_witness:
  "fst (accept_control_usb example_text ''u1'' ''other'' [Hevc, H264]
      (example_stream (AuthPairingKey ''key''))) = Inl Unauthorized"
  using usb_handshake_needs_key [of example_text peer_hello peer_hello_body
      "peer_auth (AuthPairingKey ''key'')" "AuthPairingKey ''key''" "[Hevc, H264]"
      "example_stream (AuthPairingKey ''key'')" "[]" "''other''" "''u1''"]
  by simp

text \<open>The media hello binds: what the phone writes on the media socket, the desktop reads
  back as the same session id and token, and the media bytes after it stay in the stream.\<close>

theorem media_hello_round_trip:
  assumes "prints J (enc_envelope (media_hello_envelope b)) bs" and "length bs < 2 ^ 32"
    and "tx_room (ms_wire a) = None" and "tx (ms_wire a) = []"
    and "write_media_hello J b a = (r, a')" and "rx (ms_wire s) = tx (ms_wire a') @ rest"
  shows "r = Inr () \<and> read_media_hello J s = (Inr b, s\<lparr>ms_wire := (ms_wire s)\<lparr>rx := rest\<rparr>\<rparr>)"
  using assms write_media_hello_ok [OF assms(1,3)] read_media_hello_ok [OF assms(1,2), of s rest]
  by auto

theorem media_hello_round_trip_witness:
  "\<exists>J s s'. read_media_hello J s = (Inr \<lparr> mb_session_id = ''s'', mb_token = ''t'' \<rparr>, s')"
proof -
  let ?b = "\<lparr> mb_session_id = ''s'', mb_token = ''t'' \<rparr>"
  let ?J = "table_text [enc_envelope (media_hello_envelope ?b)]"
  obtain x where x: "prints ?J (enc_envelope (media_hello_envelope ?b)) [x]"
    using table_prints [of "enc_envelope (media_hello_envelope ?b)" "[enc_envelope (media_hello_envelope ?b)]"]
    by auto
  obtain r a' where w: "write_media_hello ?J ?b (stream_of []) = (r, a')" by fastforce
  have "r = Inr () \<and> read_media_hello ?J (stream_of (tx (ms_wire a') @ [7]))
      = (Inr ?b, (stream_of (tx (ms_wire a') @ [7]))
          \<lparr>ms_wire := (ms_wire (stream_of (tx (ms_wire a') @ [7])))\<lparr>rx := [7]\<rparr>\<rparr>)"
    by (rule media_hello_round_trip [OF x _ _ _ w]) (simp_all add: stream_of_def)
  then show ?thesis by blast
qed

end
