(* ===== verification/Session_Control.thy ===== *)
theory Session_Control
  imports Session_Handshake
begin

text \<open>
  The control plane of a session (\<open>crates/session/src/controlplane.rs\<close>): the actor that owns
  a session after the handshake. Its loop waits on three branches (\<open>tokio::select!\<close>): a
  message to send, the keepalive timer, and a message from the peer. Each branch is a function
  on the actor's state here, and \<open>cp_run\<close> is the relation of all interleavings of the
  branches with the arrival of bytes. A branch that wins while the receive branch was polled
  drops the receive future together with the bytes it had read (\<open>drop_recv\<close>).

  The watch channel always has a receiver (the application keeps one), so a send to it
  updates the snapshot; the event channel is the log of the events sent. Two histories are
  kept beside the code's state: the envelopes handed to \<open>send\<close> and the messages received.
\<close>

section \<open>Data\<close>

datatype control_plane_event =
    EvStateChanged session_state_kind
  | EvDeviceInfo device_snapshot
  | EvTelemetry telemetry
  | EvClosed string
  | EvUsbTrustRequest string
  | EvModeApplied mode

text \<open>The bounded telemetry channel, used with \<open>try_send\<close> only.\<close>

record telemetry_chan =
  tc_queue :: "telemetry list"
  tc_capacity :: nat
  tc_closed :: bool

definition try_send :: "telemetry \<Rightarrow> telemetry_chan \<Rightarrow> telemetry_chan" where
  "try_send t c =
     (if tc_closed c \<or> tc_capacity c \<le> length (tc_queue c) then c
      else c\<lparr>tc_queue := tc_queue c @ [t]\<rparr>)"

record control_plane =
  cp_transport :: transport_tag
  cp_control :: control_stream
  cp_seq :: u64
  cp_last_rx :: instant
  cp_snapshot :: session_snapshot
  cp_events :: "control_plane_event list"
  cp_telemetry_tx :: "telemetry_chan option"
  cp_sent :: "control_envelope list"
  cp_received :: "control_message list"

datatype cp_flow = Continue | Returned

section \<open>The actor\<close>

definition emit :: "control_plane_event \<Rightarrow> control_plane \<Rightarrow> control_plane" where
  "emit ev cp = cp\<lparr>cp_events := cp_events cp @ [ev]\<rparr>"

definition broadcast ::
    "session_state_kind \<Rightarrow> device_snapshot option \<Rightarrow> telemetry option \<Rightarrow> control_plane \<Rightarrow> control_plane" where
  "broadcast st device telemetry cp =
     (let snap = cp_snapshot cp;
          snap = snap\<lparr>sn_state := st\<rparr>;
          snap = (case device of Some d \<Rightarrow> snap\<lparr>sn_device := Some d\<rparr> | None \<Rightarrow> snap);
          snap = (case telemetry of Some t \<Rightarrow> snap\<lparr>sn_last_telemetry := Some t\<rparr> | None \<Rightarrow> snap)
      in emit (EvStateChanged st) (cp\<lparr>cp_snapshot := snap\<rparr>))"

definition cp_send :: "json_text \<Rightarrow> control_envelope \<Rightarrow> control_plane \<Rightarrow> (transport_error + unit) \<times> control_plane" where
  "cp_send J env cp =
     (case cs_send J env (cp_control cp) of
        (r, c) \<Rightarrow> (r, cp\<lparr>cp_control := c, cp_sent := cp_sent cp @ [env]\<rparr>))"

text \<open>\<open>seq = seq.wrapping_add(1)\<close>.\<close>

definition bump_seq :: "control_plane \<Rightarrow> control_plane" where
  "bump_seq cp = cp\<lparr>cp_seq := cp_seq cp + 1\<rparr>"

text \<open>\<open>ControlPlane::new\<close> and the prologue of \<open>run_with_outbound\<close> at the instant \<open>now\<close>.\<close>

definition cp_start ::
    "transport_tag \<Rightarrow> control_stream \<Rightarrow> session_snapshot \<Rightarrow> control_plane_event list
     \<Rightarrow> telemetry_chan option \<Rightarrow> instant \<Rightarrow> control_plane" where
  "cp_start transport control snapshot events telemetry_tx now =
     (let cp = broadcast (StReady (Some transport)) None None
            \<lparr> cp_transport = transport, cp_control = control, cp_seq = 0, cp_last_rx = now,
              cp_snapshot = snapshot, cp_events = events, cp_telemetry_tx = telemetry_tx,
              cp_sent = [], cp_received = [] \<rparr>
      in cp\<lparr>cp_seq := 100, cp_last_rx := now\<rparr>)"

text \<open>The receive future that is dropped when another branch completes.\<close>

definition drop_recv :: "json_text \<Rightarrow> bool \<Rightarrow> control_plane \<Rightarrow> control_plane" where
  "drop_recv J polled cp =
     (if polled
      then case cs_recv J (cp_control cp) of
             (Pending, c) \<Rightarrow> cp\<lparr>cp_control := c\<rparr>
           | (Ready r, c) \<Rightarrow> cp
      else cp)"

definition disconnect :: "control_plane \<Rightarrow> cp_flow \<times> control_plane" where
  "disconnect cp = (Returned, broadcast Reconnecting None None cp)"

text \<open>The branch \<open>msg = outbound.recv()\<close>; \<open>None\<close> when every sender is gone.\<close>

definition cp_outbound :: "json_text \<Rightarrow> control_message option \<Rightarrow> control_plane \<Rightarrow> cp_flow \<times> control_plane" where
  "cp_outbound J msg cp =
     (case msg of
        None \<Rightarrow> (Continue, cp)
      | Some body \<Rightarrow>
          let cp1 = bump_seq cp in
          (case cp_send J \<lparr> ev_seq = cp_seq cp1, ev_ack = None, ev_body = body \<rparr> cp1 of
             (Inl e, cp2) \<Rightarrow> disconnect cp2
           | (Inr _, cp2) \<Rightarrow> (Continue, cp2)))"

text \<open>The branch \<open>keepalive.tick()\<close> at the instant \<open>now\<close>, wall clock \<open>usec\<close>.\<close>

definition cp_tick :: "json_text \<Rightarrow> instant \<Rightarrow> u64 \<Rightarrow> control_plane \<Rightarrow> cp_flow \<times> control_plane" where
  "cp_tick J now usec cp =
     (let cp1 = bump_seq cp in
      case cp_send J \<lparr> ev_seq = cp_seq cp1, ev_ack = None, ev_body = Ping \<lparr> pi_ts_usec = usec \<rparr> \<rparr> cp1 of
        (Inl e, cp2) \<Rightarrow> disconnect cp2
      | (Inr _, cp2) \<Rightarrow>
          if DEAD_PEER_AFTER < duration_since now (cp_last_rx cp2) then disconnect cp2
          else (Continue, cp2))"

text \<open>The match on the body of a received envelope.\<close>

definition cp_handle :: "json_text \<Rightarrow> u64 \<Rightarrow> control_envelope \<Rightarrow> control_plane \<Rightarrow> cp_flow \<times> control_plane" where
  "cp_handle J usec env cp =
     (case ev_body env of
        Ping p \<Rightarrow>
          (let cp1 = bump_seq cp;
               (r, cp2) = cp_send J \<lparr> ev_seq = cp_seq cp1, ev_ack = Some (ev_seq env),
                 ev_body = Pong \<lparr> po_ts_usec = usec, po_echo_usec = pi_ts_usec p \<rparr> \<rparr> cp1
           in (Continue, cp2))
      | Pong p \<Rightarrow> (Continue, cp)
      | DeviceInfo di \<Rightarrow>
          (let snap = from_device_info di in
           (Continue, broadcast (StReady (Some (cp_transport cp))) (Some snap) None
                        (emit (EvDeviceInfo snap) cp)))
      | CameraList cl \<Rightarrow>
          (let snap = cp_snapshot cp;
               snap = (case sn_device snap of
                         Some d \<Rightarrow> snap\<lparr>sn_device := Some (d\<lparr>ds_cameras := cl_cameras cl\<rparr>)\<rparr>
                       | None \<Rightarrow> snap);
               cp1 = cp\<lparr>cp_snapshot := snap\<rparr>
           in (Continue, case sn_device snap of
                           Some d \<Rightarrow> emit (EvDeviceInfo d) cp1
                         | None \<Rightarrow> cp1))
      | Telemetry t \<Rightarrow>
          (let cp1 = cp\<lparr>cp_snapshot := (cp_snapshot cp)\<lparr>sn_last_telemetry := Some t\<rparr>\<rparr>;
               cp2 = emit (EvTelemetry t) cp1
           in (Continue, cp2\<lparr>cp_telemetry_tx := map_option (try_send t) (cp_telemetry_tx cp2)\<rparr>))
      | Bye b \<Rightarrow>
          (Returned, emit (EvClosed (by_reason b))
                       (broadcast (Closed (by_reason b)) None None cp))
      | ModeApplied ma \<Rightarrow> (Continue, emit (EvModeApplied (ma_mode ma)) cp)
      | other \<Rightarrow> (Continue, cp))"

text \<open>The branch \<open>recv = control.recv()\<close>; \<open>None\<close> while no complete frame has arrived.\<close>

definition cp_recv :: "json_text \<Rightarrow> instant \<Rightarrow> u64 \<Rightarrow> control_plane \<Rightarrow> (cp_flow \<times> control_plane) option" where
  "cp_recv J now usec cp =
     (case cs_recv J (cp_control cp) of
        (Pending, c) \<Rightarrow> None
      | (Ready (Inl e), c) \<Rightarrow> Some (disconnect (cp\<lparr>cp_control := c\<rparr>))
      | (Ready (Inr env), c) \<Rightarrow>
          Some (cp_handle J usec env
            (cp\<lparr>cp_control := c, cp_last_rx := now, cp_received := cp_received cp @ [ev_body env]\<rparr>)))"

text \<open>Bytes of the peer, and possibly its end of file, arrive.\<close>

definition deliver :: "bytes \<Rightarrow> bool \<Rightarrow> control_plane \<Rightarrow> control_plane" where
  "deliver bs eof cp =
     (let c = cp_control cp; w = cst_wire c
      in cp\<lparr>cp_control := c\<lparr>cst_wire := w\<lparr>rx := rx w @ bs, rx_eof := rx_eof w \<or> eof\<rparr>\<rparr>\<rparr>)"

section \<open>Interleavings\<close>

text \<open>The states a control plane that started in \<open>cp0\<close> can reach.\<close>

inductive cp_run :: "json_text \<Rightarrow> control_plane \<Rightarrow> cp_flow \<Rightarrow> control_plane \<Rightarrow> bool"
  for J :: json_text and cp0 :: control_plane where
  init: "cp_run J cp0 Continue cp0"
| arrive: "cp_run J cp0 Continue cp \<Longrightarrow> cp_run J cp0 Continue (deliver bs eof cp)"
| outbound: "cp_run J cp0 Continue cp \<Longrightarrow> cp_outbound J msg (drop_recv J polled cp) = (f, cp') \<Longrightarrow>
    cp_run J cp0 f cp'"
| tick: "cp_run J cp0 Continue cp \<Longrightarrow> cp_tick J now usec (drop_recv J polled cp) = (f, cp') \<Longrightarrow>
    cp_run J cp0 f cp'"
| recv: "cp_run J cp0 Continue cp \<Longrightarrow> cp_recv J now usec cp = Some (f, cp') \<Longrightarrow>
    cp_run J cp0 f cp'"

inductive_cases cp_run_Returned: "cp_run J cp0 Returned cp"

section \<open>Invariants\<close>

definition running_state :: "control_plane \<Rightarrow> bool" where
  "running_state cp \<longleftrightarrow> sn_state (cp_snapshot cp) = StReady (Some (cp_transport cp))"

definition ended_state :: "control_plane \<Rightarrow> bool" where
  "ended_state cp \<longleftrightarrow>
     sn_state (cp_snapshot cp) = Reconnecting \<or> (\<exists>r. sn_state (cp_snapshot cp) = Closed r)"

definition flow_inv :: "cp_flow \<Rightarrow> control_plane \<Rightarrow> bool" where
  "flow_inv f cp = (case f of Continue \<Rightarrow> running_state cp | Returned \<Rightarrow> ended_state cp)"

text \<open>Sequence numbers count the envelopes sent, from 101.\<close>

definition seq_inv :: "control_plane \<Rightarrow> bool" where
  "seq_inv cp \<longleftrightarrow> cp_seq cp = 100 + word_of_nat (length (cp_sent cp)) \<and>
     map ev_seq (cp_sent cp) = map (\<lambda>i. 101 + word_of_nat i) [0..<length (cp_sent cp)]"

text \<open>What the messages received so far say about the device.\<close>

fun mirror :: "control_message \<Rightarrow> session_snapshot \<Rightarrow> session_snapshot" where
  "mirror (DeviceInfo di) s = s\<lparr>sn_device := Some (from_device_info di)\<rparr>"
| "mirror (CameraList cl) s =
     s\<lparr>sn_device := map_option (\<lambda>d. d\<lparr>ds_cameras := cl_cameras cl\<rparr>) (sn_device s)\<rparr>"
| "mirror (Telemetry t) s = s\<lparr>sn_last_telemetry := Some t\<rparr>"
| "mirror _ s = s"

definition mirror_inv :: "session_snapshot \<Rightarrow> control_plane \<Rightarrow> bool" where
  "mirror_inv s0 cp \<longleftrightarrow>
     sn_device (cp_snapshot cp) = sn_device (fold mirror (cp_received cp) s0) \<and>
     sn_last_telemetry (cp_snapshot cp) = sn_last_telemetry (fold mirror (cp_received cp) s0)"

lemmas cp_defs = bump_seq_def cp_send_def disconnect_def broadcast_def emit_def Let_def

lemma cp_send_fields [simp]:
  assumes "cp_send J env cp = (r, cp')"
  shows "cp_seq cp' = cp_seq cp" "cp_snapshot cp' = cp_snapshot cp" "cp_transport cp' = cp_transport cp"
    "cp_events cp' = cp_events cp" "cp_received cp' = cp_received cp" "cp_last_rx cp' = cp_last_rx cp"
    "cp_sent cp' = cp_sent cp @ [env]" "cp_telemetry_tx cp' = cp_telemetry_tx cp"
  using assms by (auto simp: cp_send_def split: prod.splits)

lemma drop_recv_fields [simp]:
  "cp_seq (drop_recv J b cp) = cp_seq cp" "cp_snapshot (drop_recv J b cp) = cp_snapshot cp"
  "cp_transport (drop_recv J b cp) = cp_transport cp" "cp_events (drop_recv J b cp) = cp_events cp"
  "cp_received (drop_recv J b cp) = cp_received cp" "cp_last_rx (drop_recv J b cp) = cp_last_rx cp"
  "cp_sent (drop_recv J b cp) = cp_sent cp" "cp_telemetry_tx (drop_recv J b cp) = cp_telemetry_tx cp"
  by (simp_all add: drop_recv_def split: prod.splits poll.splits)

lemma deliver_fields [simp]:
  "cp_seq (deliver bs e cp) = cp_seq cp" "cp_snapshot (deliver bs e cp) = cp_snapshot cp"
  "cp_transport (deliver bs e cp) = cp_transport cp" "cp_events (deliver bs e cp) = cp_events cp"
  "cp_received (deliver bs e cp) = cp_received cp" "cp_sent (deliver bs e cp) = cp_sent cp"
  by (simp_all add: deliver_def Let_def)

lemma broadcast_fields [simp]:
  "cp_seq (broadcast st d t cp) = cp_seq cp" "cp_transport (broadcast st d t cp) = cp_transport cp"
  "cp_received (broadcast st d t cp) = cp_received cp" "cp_sent (broadcast st d t cp) = cp_sent cp"
  "sn_state (cp_snapshot (broadcast st d t cp)) = st"
  "sn_device (cp_snapshot (broadcast st d t cp)) =
     (case d of None \<Rightarrow> sn_device (cp_snapshot cp) | Some x \<Rightarrow> Some x)"
  "sn_last_telemetry (cp_snapshot (broadcast st d t cp)) =
     (case t of None \<Rightarrow> sn_last_telemetry (cp_snapshot cp) | Some x \<Rightarrow> Some x)"
  "cp_events (broadcast st d t cp) = cp_events cp @ [EvStateChanged st]"
  by (simp_all add: broadcast_def emit_def Let_def split: option.split)

lemma emit_fields [simp]:
  "cp_seq (emit ev cp) = cp_seq cp" "cp_transport (emit ev cp) = cp_transport cp"
  "cp_received (emit ev cp) = cp_received cp" "cp_sent (emit ev cp) = cp_sent cp"
  "cp_snapshot (emit ev cp) = cp_snapshot cp" "cp_events (emit ev cp) = cp_events cp @ [ev]"
  "cp_telemetry_tx (emit ev cp) = cp_telemetry_tx cp"
  by (simp_all add: emit_def)

text \<open>
  What an invariant of the actor has to survive: the arrival of bytes, the dropped receive,
  and each of the three branches. It then holds in every state of every interleaving.
\<close>

locale cp_invariant =
  fixes J :: json_text and I :: "cp_flow \<Rightarrow> control_plane \<Rightarrow> bool"
  assumes inv_deliver: "I Continue cp \<Longrightarrow> I Continue (deliver bs eof cp)"
    and inv_drop: "I Continue cp \<Longrightarrow> I Continue (drop_recv J polled cp)"
    and inv_outbound: "I Continue cp \<Longrightarrow> cp_outbound J msg cp = (f, cp') \<Longrightarrow> I f cp'"
    and inv_tick: "I Continue cp \<Longrightarrow> cp_tick J now usec cp = (f, cp') \<Longrightarrow> I f cp'"
    and inv_recv: "I Continue cp \<Longrightarrow> cp_recv J now usec cp = Some (f, cp') \<Longrightarrow> I f cp'"
begin

lemma run_invariant: "cp_run J cp0 f cp \<Longrightarrow> I Continue cp0 \<Longrightarrow> I f cp"
  by (induction rule: cp_run.induct)
    (auto intro: inv_deliver inv_outbound inv_tick inv_recv inv_drop)

end

text \<open>The branches that send one envelope, with the next sequence number.\<close>

definition sends_one :: "json_text \<Rightarrow> control_plane \<Rightarrow> cp_flow \<Rightarrow> control_plane \<Rightarrow> bool" where
  "sends_one J cp f cp' \<longleftrightarrow>
     (\<exists>env r cp2. cp_send J env (bump_seq cp) = (r, cp2) \<and> ev_seq env = cp_seq cp + 1 \<and>
        (f = Continue \<and> cp' = cp2 \<or> f = Returned \<and> cp' = broadcast Reconnecting None None cp2))"

lemma sends_oneI:
  assumes "cp_send J env (bump_seq cp) = (r, cp2)" and "ev_seq env = cp_seq cp + 1"
    and "f = Continue \<and> cp' = cp2 \<or> (f, cp') = disconnect cp2"
  shows "sends_one J cp f cp'"
  using assms unfolding sends_one_def disconnect_def by blast

lemma bump_seq_fields [simp]:
  "cp_seq (bump_seq cp) = cp_seq cp + 1" "cp_sent (bump_seq cp) = cp_sent cp"
  "cp_snapshot (bump_seq cp) = cp_snapshot cp" "cp_received (bump_seq cp) = cp_received cp"
  "cp_transport (bump_seq cp) = cp_transport cp" "cp_last_rx (bump_seq cp) = cp_last_rx cp"
  "cp_control (bump_seq cp) = cp_control cp" "cp_events (bump_seq cp) = cp_events cp"
  by (simp_all add: bump_seq_def)

lemma cp_outbound_cases:
  assumes "cp_outbound J msg cp = (f, cp')"
  shows "msg = None \<and> f = Continue \<and> cp' = cp \<or> sends_one J cp f cp'"
proof (cases msg)
  case None
  then show ?thesis using assms by (simp add: cp_outbound_def)
next
  case (Some body)
  let ?env = "\<lparr> ev_seq = cp_seq cp + 1, ev_ack = None, ev_body = body \<rparr>"
  obtain r cp2 where s: "cp_send J ?env (bump_seq cp) = (r, cp2)" by fastforce
  have "f = Continue \<and> cp' = cp2 \<or> (f, cp') = disconnect cp2"
    using assms s by (cases r) (simp_all add: cp_outbound_def Some Let_def)
  then show ?thesis using sends_oneI [OF s] by simp
qed

lemma cp_tick_cases:
  assumes "cp_tick J now usec cp = (f, cp')"
  shows "sends_one J cp f cp'"
proof -
  let ?env = "\<lparr> ev_seq = cp_seq cp + 1, ev_ack = None, ev_body = Ping \<lparr> pi_ts_usec = usec \<rparr> \<rparr>"
  obtain r cp2 where s: "cp_send J ?env (bump_seq cp) = (r, cp2)" by fastforce
  have "f = Continue \<and> cp' = cp2 \<or> (f, cp') = disconnect cp2"
    using assms s by (cases r) (simp_all add: cp_tick_def Let_def split: if_splits)
  then show ?thesis using sends_oneI [OF s] by simp
qed

text \<open>The receive branch: the stream failed, or a message was handled.\<close>

lemma cp_recv_cases:
  assumes "cp_recv J now usec cp = Some (f, cp')"
  obtains (failed) c e where "cs_recv J (cp_control cp) = (Ready (Inl e), c)" "f = Returned"
      "cp' = broadcast Reconnecting None None (cp\<lparr>cp_control := c\<rparr>)"
  | (message) c env where "cs_recv J (cp_control cp) = (Ready (Inr env), c)"
      "cp_handle J usec env (cp\<lparr>cp_control := c, cp_last_rx := now,
         cp_received := cp_received cp @ [ev_body env]\<rparr>) = (f, cp')"
  using assms by (auto simp: cp_recv_def disconnect_def split: prod.splits poll.splits sum.splits)

lemma cp_handle_Ping:
  assumes "ev_body env = Ping p" and "cp_handle J usec env cp = (f, cp')"
  shows "f = Continue" and "sends_one J cp f cp'"
proof -
  let ?env = "\<lparr> ev_seq = cp_seq cp + 1, ev_ack = Some (ev_seq env),
     ev_body = Pong \<lparr> po_ts_usec = usec, po_echo_usec = pi_ts_usec p \<rparr> \<rparr>"
  obtain r cp2 where s: "cp_send J ?env (bump_seq cp) = (r, cp2)" by fastforce
  then have "f = Continue \<and> cp' = cp2" using assms by (simp add: cp_handle_def Let_def)
  then show "f = Continue" "sends_one J cp f cp'" using sends_oneI [OF s] by simp_all
qed

text \<open>The effects of the other messages on what the invariants speak of.\<close>

lemma cp_handle_other:
  assumes "\<And>p. ev_body env \<noteq> Ping p" and "cp_handle J usec env cp = (f, cp')"
  shows "cp_seq cp' = cp_seq cp" and "cp_sent cp' = cp_sent cp" and "cp_received cp' = cp_received cp"
    and "cp_transport cp' = cp_transport cp"
    and "sn_device (cp_snapshot cp') = sn_device (mirror (ev_body env) (cp_snapshot cp))"
    and "sn_last_telemetry (cp_snapshot cp') = sn_last_telemetry (mirror (ev_body env) (cp_snapshot cp))"
    and "sn_state (cp_snapshot cp') =
      (case ev_body env of
         Bye b \<Rightarrow> Closed (by_reason b)
       | DeviceInfo di \<Rightarrow> StReady (Some (cp_transport cp))
       | _ \<Rightarrow> sn_state (cp_snapshot cp))"
    and "f = (case ev_body env of Bye b \<Rightarrow> Returned | _ \<Rightarrow> Continue)"
  using assms
  by (cases "ev_body env"; force simp: cp_handle_def Let_def split: option.splits)+

lemma sends_one_fields:
  assumes "sends_one J cp f cp'"
  shows "cp_seq cp' = cp_seq cp + 1" and "\<exists>env. cp_sent cp' = cp_sent cp @ [env] \<and> ev_seq env = cp_seq cp + 1"
    and "cp_received cp' = cp_received cp" and "cp_transport cp' = cp_transport cp"
    and "sn_device (cp_snapshot cp') = sn_device (cp_snapshot cp)"
    and "sn_last_telemetry (cp_snapshot cp') = sn_last_telemetry (cp_snapshot cp)"
    and "sn_state (cp_snapshot cp') = (if f = Continue then sn_state (cp_snapshot cp) else Reconnecting)"
  using assms unfolding sends_one_def by (auto dest: cp_send_fields)

lemma seq_inv_sends: "seq_inv cp \<Longrightarrow> sends_one J cp f cp' \<Longrightarrow> seq_inv cp'"
  using sends_one_fields(1,2) [of J cp f cp'] by (auto simp: seq_inv_def)

lemma mirror_inv_sends: "mirror_inv s0 cp \<Longrightarrow> sends_one J cp f cp' \<Longrightarrow> mirror_inv s0 cp'"
  using sends_one_fields(3,5,6) [of J cp f cp'] by (simp add: mirror_inv_def)

lemma flow_inv_sends: "flow_inv Continue cp \<Longrightarrow> sends_one J cp f cp' \<Longrightarrow> flow_inv f cp'"
  using sends_one_fields(4,7) [of J cp f cp']
  by (cases f) (simp_all add: flow_inv_def running_state_def ended_state_def)

lemma mirror_congr:
  "sn_device s = sn_device s' \<Longrightarrow> sn_device (mirror m s) = sn_device (mirror m s')"
  "sn_last_telemetry s = sn_last_telemetry s' \<Longrightarrow> sn_last_telemetry (mirror m s) = sn_last_telemetry (mirror m s')"
  by (cases m; simp)+

lemma mirror_inv_message:
  assumes "mirror_inv s0 cp" and "cp_received cp' = cp_received cp @ [m]"
    and "sn_device (cp_snapshot cp') = sn_device (mirror m (cp_snapshot cp))"
    and "sn_last_telemetry (cp_snapshot cp') = sn_last_telemetry (mirror m (cp_snapshot cp))"
  shows "mirror_inv s0 cp'"
  using assms mirror_congr [of "cp_snapshot cp" "fold mirror (cp_received cp) s0" m]
  by (simp add: mirror_inv_def)

interpretation flow: cp_invariant J flow_inv for J
proof unfold_locales
  fix cp :: control_plane and bs eof polled msg f cp' now usec
  assume I: "flow_inv Continue cp"
  show "flow_inv Continue (deliver bs eof cp)" "flow_inv Continue (drop_recv J polled cp)"
    using I by (simp_all add: flow_inv_def running_state_def)
  show "flow_inv f cp'" if "cp_outbound J msg cp = (f, cp')"
    using cp_outbound_cases [OF that] I flow_inv_sends by blast
  show "flow_inv f cp'" if "cp_tick J now usec cp = (f, cp')"
    using cp_tick_cases [OF that] I by (rule flow_inv_sends [rotated])
  show "flow_inv f cp'" if "cp_recv J now usec cp = Some (f, cp')"
    using that
  proof (cases rule: cp_recv_cases)
    case failed
    then show ?thesis by (simp add: flow_inv_def ended_state_def)
  next
    case (message c env)
    let ?cp = "cp\<lparr>cp_control := c, cp_last_rx := now, cp_received := cp_received cp @ [ev_body env]\<rparr>"
    have I': "flow_inv Continue ?cp" using I by (simp add: flow_inv_def running_state_def)
    show ?thesis
    proof (cases "\<exists>p. ev_body env = Ping p")
      case True
      then show ?thesis using cp_handle_Ping(2) [OF _ message(2)] flow_inv_sends [OF I'] by blast
    next
      case False
      then show ?thesis
        using cp_handle_other(4,7,8) [OF _ message(2)] I'
        by (cases "ev_body env") (auto simp: flow_inv_def running_state_def ended_state_def)
    qed
  qed
qed

interpretation seqs: cp_invariant J "\<lambda>_. seq_inv" for J
proof unfold_locales
  fix cp :: control_plane and bs eof polled msg f cp' now usec
  assume I: "seq_inv cp"
  show "seq_inv (deliver bs eof cp)" "seq_inv (drop_recv J polled cp)"
    using I by (simp_all add: seq_inv_def)
  show "seq_inv cp'" if "cp_outbound J msg cp = (f, cp')"
    using cp_outbound_cases [OF that] I seq_inv_sends by blast
  show "seq_inv cp'" if "cp_tick J now usec cp = (f, cp')"
    using cp_tick_cases [OF that] I by (rule seq_inv_sends [rotated])
  show "seq_inv cp'" if "cp_recv J now usec cp = Some (f, cp')"
    using that
  proof (cases rule: cp_recv_cases)
    case failed
    then show ?thesis using I by (simp add: seq_inv_def)
  next
    case (message c env)
    let ?cp = "cp\<lparr>cp_control := c, cp_last_rx := now, cp_received := cp_received cp @ [ev_body env]\<rparr>"
    have I': "seq_inv ?cp" using I by (simp add: seq_inv_def)
    show ?thesis
    proof (cases "\<exists>p. ev_body env = Ping p")
      case True
      then show ?thesis using cp_handle_Ping(2) [OF _ message(2)] seq_inv_sends [OF I'] by blast
    next
      case False
      then show ?thesis
        using cp_handle_other(1,2) [OF _ message(2)] I' by (simp add: seq_inv_def)
    qed
  qed
qed

interpretation mirrors: cp_invariant J "\<lambda>_. mirror_inv s0" for J s0
proof unfold_locales
  fix cp :: control_plane and bs eof polled msg f cp' now usec
  assume I: "mirror_inv s0 cp"
  show "mirror_inv s0 (deliver bs eof cp)" "mirror_inv s0 (drop_recv J polled cp)"
    using I by (simp_all add: mirror_inv_def)
  show "mirror_inv s0 cp'" if "cp_outbound J msg cp = (f, cp')"
    using cp_outbound_cases [OF that] I mirror_inv_sends by blast
  show "mirror_inv s0 cp'" if "cp_tick J now usec cp = (f, cp')"
    using cp_tick_cases [OF that] I by (rule mirror_inv_sends [rotated])
  show "mirror_inv s0 cp'" if "cp_recv J now usec cp = Some (f, cp')"
    using that
  proof (cases rule: cp_recv_cases)
    case failed
    then show ?thesis using I by (simp add: mirror_inv_def)
  next
    case (message c env)
    show ?thesis
    proof (cases "\<exists>p. ev_body env = Ping p")
      case True
      then have "sends_one J (cp\<lparr>cp_control := c, cp_last_rx := now,
          cp_received := cp_received cp @ [ev_body env]\<rparr>) f cp'"
        using cp_handle_Ping(2) [OF _ message(2)] by blast
      from sends_one_fields(3,5,6) [OF this] True show ?thesis
        by (intro mirror_inv_message [OF I]) auto
    next
      case False
      then show ?thesis
        using cp_handle_other(3,5,6) [OF _ message(2)]
          mirror_congr [of "cp_snapshot cp" "cp_snapshot cp" "ev_body env"]
        by (intro mirror_inv_message [OF I]) auto
    qed
  qed
qed

lemma cp_start_inv:
  "flow_inv Continue (cp_start tag c snap evs tele now)"
  "seq_inv (cp_start tag c snap evs tele now)"
  "mirror_inv snap (cp_start tag c snap evs tele now)"
  by (simp_all add: cp_start_def Let_def flow_inv_def running_state_def seq_inv_def mirror_inv_def)

section \<open>Ticks\<close>

text \<open>Keepalive ticks in a row, with nothing received between them.\<close>

fun run_ticks :: "json_text \<Rightarrow> (instant \<times> u64) list \<Rightarrow> control_plane \<Rightarrow> cp_flow \<times> control_plane" where
  "run_ticks J [] cp = (Continue, cp)"
| "run_ticks J ((now, usec) # ts) cp =
     (case cp_tick J now usec cp of
        (Returned, cp') \<Rightarrow> (Returned, cp')
      | (Continue, cp') \<Rightarrow> run_ticks J ts cp')"

text \<open>Every envelope the actor may send next goes through.\<close>

definition link_up :: "json_text \<Rightarrow> control_plane \<Rightarrow> bool" where
  "link_up J cp \<longleftrightarrow> tx_room (cst_wire (cp_control cp)) = None"

definition ping_env :: "u64 \<Rightarrow> u64 \<Rightarrow> control_envelope" where
  "ping_env sq usec = \<lparr> ev_seq = sq, ev_ack = None, ev_body = Ping \<lparr> pi_ts_usec = usec \<rparr> \<rparr>"

text \<open>Ticks no later than \<open>limit\<close> whose pings, numbered from \<open>sq + 1\<close>, can be written.\<close>

fun quiet_ticks :: "json_text \<Rightarrow> instant \<Rightarrow> u64 \<Rightarrow> (instant \<times> u64) list \<Rightarrow> bool" where
  "quiet_ticks J bound sq [] \<longleftrightarrow> True"
| "quiet_ticks J bound sq ((now, usec) # ts) \<longleftrightarrow>
     now \<le> bound \<and> carried J (ping_env (sq + 1) usec) \<and> quiet_ticks J bound (sq + 1) ts"

lemma cp_tick_up:
  assumes "link_up J cp" and "carried J (ping_env (cp_seq cp + 1) usec)"
  obtains cp' where "cp_tick J now usec cp =
      (if DEAD_PEER_AFTER < now - cp_last_rx cp
       then (Returned, broadcast Reconnecting None None cp') else (Continue, cp'))"
    "link_up J cp'" "cp_last_rx cp' = cp_last_rx cp" "cp_seq cp' = cp_seq cp + 1"
proof -
  obtain cp' where s: "cp_send J (ping_env (cp_seq cp + 1) usec) (bump_seq cp) = (Inr (), cp')"
    "link_up J cp'"
    using assms(1) send_carried [OF assms(2), of "cp_control cp"]
    by (simp add: cp_send_def link_up_def)
  then show ?thesis
    using that [of cp'] cp_send_fields [OF s(1)]
    by (simp add: cp_tick_def ping_env_def Let_def duration_since_def disconnect_def)
qed

lemma run_ticks_alive:
  assumes "link_up J cp" and "quiet_ticks J (cp_last_rx cp + DEAD_PEER_AFTER) (cp_seq cp) ts"
  shows "\<exists>cp'. run_ticks J ts cp = (Continue, cp') \<and> link_up J cp' \<and> cp_last_rx cp' = cp_last_rx cp
    \<and> cp_seq cp' = cp_seq cp + word_of_nat (length ts)"
  using assms
proof (induction ts arbitrary: cp)
  case (Cons t ts)
  obtain now usec where t: "t = (now, usec)" by (cases t)
  from Cons.prems have now: "now \<le> cp_last_rx cp + DEAD_PEER_AFTER" "carried J (ping_env (cp_seq cp + 1) usec)"
    and rest: "quiet_ticks J (cp_last_rx cp + DEAD_PEER_AFTER) (cp_seq cp + 1) ts"
    by (simp_all add: t)
  from cp_tick_up [OF Cons.prems(1) now(2), of now] now(1) obtain cp1 where
    c: "cp_tick J now usec cp = (Continue, cp1)" "link_up J cp1" "cp_last_rx cp1 = cp_last_rx cp"
      "cp_seq cp1 = cp_seq cp + 1"
    by (metis leD le_diff_conv add.commute)
  from Cons.IH [OF c(2)] rest c show ?case
    by (simp add: t add.assoc)
qed simp

section \<open>Properties\<close>

text \<open>An example session: two pings in the table of the text codec.\<close>

definition ping_text :: json_text where
  "ping_text = table_text (map enc_envelope [ping_env 101 7, ping_env 102 9, ping_env 5 3])"

definition ping_plane :: control_plane where
  "ping_plane = cp_start TagWifi (idle_stream []) snapshot_idle [] None 0"

lemma ping_carried [simp]:
  "carried ping_text (ping_env 101 7)" "carried ping_text (ping_env 102 9)" "carried ping_text (ping_env 5 3)"
  unfolding ping_text_def by (rule carried_table; simp add: env_ok_def ping_env_def)+

lemma ping_plane_fields [simp]:
  "link_up J ping_plane" "cp_seq ping_plane = 100" "cp_last_rx ping_plane = 0"
  "cp_transport ping_plane = TagWifi" "cp_sent ping_plane = []"
  "cp_snapshot ping_plane = snapshot_idle\<lparr>sn_state := StReady (Some TagWifi)\<rparr>"
  "cp_received ping_plane = []" "cp_control ping_plane = idle_stream []"
  by (simp_all add: ping_plane_def cp_start_def link_up_def idle_stream_def broadcast_def emit_def Let_def)



text \<open>C13. Outgoing sequence numbers: in every interleaving, the envelopes the actor sends,
  pings, pongs and queued messages alike, are numbered 101, 102, 103 and so on without gap or
  repetition, modulo \<open>2 ^ 64\<close>.\<close>

theorem outgoing_sequence_numbers:
  assumes "cp_run J (cp_start tag c snap evs tele now) f cp"
  shows "map ev_seq (cp_sent cp) = map (\<lambda>i. 101 + word_of_nat i) [0..<length (cp_sent cp)]"
  using seqs.run_invariant [OF assms cp_start_inv(2)] by (simp add: seq_inv_def)

theorem outgoing_sequence_numbers_witness:
  "map ev_seq (cp_sent (snd (cp_tick ping_text 1 7 ping_plane))) = [101]"
proof -
  let ?cp = "snd (cp_tick ping_text 1 7 ping_plane)"
  have "cp_run ping_text ping_plane (fst (cp_tick ping_text 1 7 ping_plane)) ?cp"
    by (rule cp_run.tick [OF cp_run.init, where polled = False]) (simp add: drop_recv_def)
  note nums = outgoing_sequence_numbers [OF this [unfolded ping_plane_def]]
  have "length (cp_sent ?cp) = 1"
    using sends_one_fields(2) [OF cp_tick_cases [of ping_text 1 7 ping_plane
          "fst (cp_tick ping_text 1 7 ping_plane)" ?cp]] by auto
  with nums show ?thesis by (simp add: ping_plane_def [symmetric])
qed



text \<open>C15. A silent peer is detected: while the link takes the pings, ticks up to 6 s after the
  last message received keep the session running, and the first tick later than that ends it
  in \<open>Reconnecting\<close>.\<close>

theorem dead_peer_detected:
  assumes "link_up J cp" and "quiet_ticks J (cp_last_rx cp + DEAD_PEER_AFTER) (cp_seq cp) ts"
    and "cp_last_rx cp + DEAD_PEER_AFTER < late"
    and "carried J (ping_env (cp_seq cp + word_of_nat (length ts) + 1) usec)"
  shows "\<exists>cp1 cp2. run_ticks J ts cp = (Continue, cp1)
    \<and> cp_tick J late usec cp1 = (Returned, cp2) \<and> sn_state (cp_snapshot cp2) = Reconnecting"
proof -
  from run_ticks_alive [OF assms(1,2)] obtain cp1 where
    r: "run_ticks J ts cp = (Continue, cp1)" "link_up J cp1" "cp_last_rx cp1 = cp_last_rx cp"
      "cp_seq cp1 = cp_seq cp + word_of_nat (length ts)" by blast
  obtain cp' where "cp_tick J late usec cp1 = (if DEAD_PEER_AFTER < late - cp_last_rx cp1
       then (Returned, broadcast Reconnecting None None cp') else (Continue, cp'))"
    using cp_tick_up [OF r(2), of usec late] assms(4) r(4) by auto
  moreover have "DEAD_PEER_AFTER < late - cp_last_rx cp1" using assms(3) r(3) by simp
  ultimately show ?thesis using r(1) by auto
qed

theorem dead_peer_detected_witness:
  "\<exists>cp1 cp2. run_ticks ping_text [(from_secs 6, 7)] ping_plane = (Continue, cp1)
    \<and> cp_tick ping_text (from_secs 8) 9 cp1 = (Returned, cp2) \<and> sn_state (cp_snapshot cp2) = Reconnecting"
  by (rule dead_peer_detected) (simp_all add: DEAD_PEER_AFTER_def from_secs_def)

text \<open>Pings are answered: a received PING is answered by one PONG that acknowledges its
  sequence number and echoes its timestamp, it counts as a sign of life, and the session goes
  on even if the answer cannot be written.\<close>

theorem ping_is_answered:
  assumes "cs_recv J (cp_control cp) = (Ready (Inr env), c)" and "ev_body env = Ping p"
  shows "\<exists>cp'. cp_recv J now usec cp = Some (Continue, cp') \<and> cp_last_rx cp' = now
    \<and> cp_sent cp' = cp_sent cp @ [\<lparr> ev_seq = cp_seq cp + 1, ev_ack = Some (ev_seq env),
         ev_body = Pong \<lparr> po_ts_usec = usec, po_echo_usec = pi_ts_usec p \<rparr> \<rparr>]
    \<and> cp_snapshot cp' = cp_snapshot cp \<and> cp_events cp' = cp_events cp"
proof -
  let ?cp = "cp\<lparr>cp_control := c, cp_last_rx := now, cp_received := cp_received cp @ [Ping p]\<rparr>"
  let ?env = "\<lparr> ev_seq = cp_seq cp + 1, ev_ack = Some (ev_seq env),
     ev_body = Pong \<lparr> po_ts_usec = usec, po_echo_usec = pi_ts_usec p \<rparr> \<rparr>"
  obtain r cp' where s: "cp_send J ?env (bump_seq ?cp) = (r, cp')" by fastforce
  then have "cp_recv J now usec cp = Some (Continue, cp')"
    using assms by (simp add: cp_recv_def cp_handle_def Let_def)
  then show ?thesis using cp_send_fields [OF s] by simp
qed

theorem ping_is_answered_witness:
  "\<exists>cp'. cp_recv ping_text 4 8 (deliver (wire_bytes ping_text (ping_env 5 3)) False ping_plane)
       = Some (Continue, cp')
     \<and> map ev_ack (cp_sent cp') = [Some 5]"
proof -
  let ?cp = "deliver (wire_bytes ping_text (ping_env 5 3)) False ping_plane"
  have "cs_recv ping_text (cp_control ?cp) =
      (Ready (Inr (ping_env 5 3)), (cp_control ?cp)\<lparr>cst_wire := (cst_wire (cp_control ?cp))\<lparr>rx := []\<rparr>\<rparr>)"
    by (rule recv_carried) (simp_all add: deliver_def Let_def idle_stream_def)
  moreover have "ev_body (ping_env 5 3) = Ping \<lparr> pi_ts_usec = 3 \<rparr>" "ev_seq (ping_env 5 3) = 5"
    by (simp_all add: ping_env_def)
  ultimately obtain cp' where "cp_recv ping_text 4 8 ?cp = Some (Continue, cp')"
    and "cp_sent cp' = cp_sent ?cp @ [\<lparr> ev_seq = cp_seq ?cp + 1, ev_ack = Some 5,
         ev_body = Pong \<lparr> po_ts_usec = 8, po_echo_usec = 3 \<rparr> \<rparr>]"
    using ping_is_answered [of ping_text ?cp "ping_env 5 3" _ "\<lparr> pi_ts_usec = 3 \<rparr>" 4 8] by (metis ping.select_convs(1))
  then show ?thesis by simp
qed

text \<open>C39. Receiving is not cancel-safe: when a branch of the loop other than the receive branch
  completes while an incomplete frame has been read, the bytes of that frame are lost from
  the stream, so the rest of the frame is later taken for a length prefix.\<close>

theorem dropped_receive_loses_bytes:
  assumes "try_unframe (rx (cst_wire (cp_control cp))) DEFAULT_MAX_PAYLOAD = Inr None"
    and "\<not> rx_eof (cst_wire (cp_control cp))"
  shows "rx (cst_wire (cp_control (drop_recv J True cp))) = []
    \<and> rx (cst_wire (cp_control (deliver bs False (drop_recv J True cp)))) = bs"
proof -
  have "read_frame (cst_wire (cp_control cp)) = (Pending, (cst_wire (cp_control cp))\<lparr>rx := []\<rparr>)"
    using assms by (auto simp: read_frame_def read_exact_def try_unframe_exact Let_def
        unat_from_be_bytes32 MAX_PAYLOAD_USIZE_val split: if_splits)
  then show ?thesis
    by (simp add: drop_recv_def cs_recv_def deliver_def Let_def)
qed

text \<open>A four-byte prefix announcing one byte, cut after three bytes: a tick loses the three.\<close>

theorem dropped_receive_loses_bytes_witness:
  "rx (cst_wire (cp_control (deliver [1, 42] False
     (drop_recv ping_text True (deliver [0, 0, 0] False ping_plane))))) = [1, 42]"
proof -
  let ?cp = "deliver [0, 0, 0] False ping_plane"
  have "try_unframe (rx (cst_wire (cp_control ?cp))) DEFAULT_MAX_PAYLOAD = Inr None"
    by (simp add: deliver_def Let_def idle_stream_def try_unframe_def PREFIX_LEN_def)
  moreover have "\<not> rx_eof (cst_wire (cp_control ?cp))"
    by (simp add: deliver_def Let_def idle_stream_def)
  ultimately show ?thesis using dropped_receive_loses_bytes [of ?cp ping_text "[1, 42]"] by blast
qed

text \<open>A message the codec rejects, one with an unknown tag included, ends the session: the
  receive branch goes to \<open>Reconnecting\<close> and returns.\<close>

theorem rejected_message_disconnects:
  assumes "read_frame (cst_wire (cp_control cp)) = (Ready (Inr buf), w)"
    and "jt_parse J buf = Some (JObj fs)"
    and "\<And>tag. req ''t'' dec_str fs = Some tag \<Longrightarrow> tag \<notin> fst ` set msg_decoders"
  shows "\<exists>cp'. cp_recv J now usec cp = Some (Returned, cp') \<and> sn_state (cp_snapshot cp') = Reconnecting"
proof -
  have "dec_envelope (JObj fs) = None"
    using assms(3) dec_message_tag_known [of fs] by (cases "dec_envelope (JObj fs)") blast+
  then show ?thesis
    using assms(1,2) by (simp add: cp_recv_def cs_recv_def from_slice_def disconnect_def)
qed

definition unknown_json :: json where
  "unknown_json = JObj [(''seq'', JInt 1), (''t'', JStr ''FUTURE'')]"

theorem rejected_message_disconnects_witness:
  "\<exists>cp'. cp_recv (table_text [unknown_json]) 4 8 (deliver (frame_bytes [0]) False ping_plane)
       = Some (Returned, cp') \<and> sn_state (cp_snapshot cp') = Reconnecting"
proof (rule rejected_message_disconnects)
  let ?w = "cst_wire (cp_control (deliver (frame_bytes [0]) False ping_plane))"
  show "read_frame ?w = (Ready (Inr [0]), ?w\<lparr>rx := []\<rparr>)"
    by (rule read_frame_frame) (simp_all add: deliver_def Let_def idle_stream_def MAX_PAYLOAD_USIZE_val)
  show "jt_parse (table_text [unknown_json]) [0] = Some (JObj [(''seq'', JInt 1), (''t'', JStr ''FUTURE'')])"
    by (simp add: table_text_def unknown_json_def)
  show "tag \<notin> fst ` set msg_decoders"
    if "req ''t'' dec_str [(''seq'', JInt 1), (''t'', JStr ''FUTURE'')] = Some tag" for tag
    using that by (auto simp: req_def msg_decoders_def)
qed

end
