(* ===== verification/Adaptive_Tables.thy ===== *)
theory Adaptive_Tables
  imports Ccp_Control
begin

text \<open>
  Bitrate tables and input types of the adaptive crate (\<open>crates/adaptive/src/tables.rs\<close>,
  \<open>types.rs\<close>). The arithmetic is the \<open>u64\<close> arithmetic of the code: products wrap in a
  release build and panic in a debug build; the lemmas show that neither happens for the
  16-bit dimensions every caller passes, so the result is the exact integer formula.
\<close>

section \<open>Tables\<close>

definition raw_bitrate_kbps :: "u32 \<Rightarrow> u32 \<Rightarrow> u32 \<Rightarrow> u64" where
  "raw_bitrate_kbps width height fps =
     (ucast width * ucast height * 3 div 2 * 8 * ucast fps) div 1000"

definition hevc_target_kbps :: "u32 \<Rightarrow> u32 \<Rightarrow> u32 \<Rightarrow> u64" where
  "hevc_target_kbps width height fps =
     (if (width, height, fps) = (1280, 720, 30) then 12000
      else if (width, height, fps) = (1280, 720, 60) then 20000
      else if (width, height, fps) = (1920, 1080, 30) then 30000
      else if (width, height, fps) = (1920, 1080, 60) then 50000
      else if (width, height, fps) = (3840, 2160, 30) then 90000
      else (let area = ucast width * ucast height in (area * ucast fps) div 2560))"

definition h264_target_kbps :: "u32 \<Rightarrow> u32 \<Rightarrow> u32 \<Rightarrow> u64" where
  "h264_target_kbps width height fps = (hevc_target_kbps width height fps * 8) div 5"

section \<open>Types\<close>

record measurement =
  me_goodput_mbps :: f64
  me_rtt_ms :: f64
  me_jitter_ms :: f64
  me_loss_pct :: f64

datatype transport_class = TcWiFi | TcUsb2 | TcUsb3

fun raw_ceiling_kbps :: "transport_class \<Rightarrow> u64" where
  "raw_ceiling_kbps TcWiFi = 0"
| "raw_ceiling_kbps TcUsb2 = 480000"
| "raw_ceiling_kbps TcUsb3 = 5000000"

record user_limits =
  ul_max_width :: "u16 option"
  ul_max_height :: "u16 option"
  ul_max_fps :: "u16 option"
  ul_prefer_raw :: bool

record available_mode =
  am_width :: u16
  am_height :: u16
  am_fps :: u16
  am_caps :: "capability list"

definition am_supports :: "available_mode \<Rightarrow> capability \<Rightarrow> bool" where
  "am_supports m cap \<longleftrightarrow> (\<exists>c \<in> set (am_caps m). c = cap)"

section \<open>No overflow on 16-bit dimensions\<close>

text \<open>The value of a \<open>u64\<close> product that stays below \<open>2 ^ 64\<close>.\<close>

lemma unat_mult64: "unat a * unat b < 2 ^ 64 \<Longrightarrow> unat (a * b :: u64) = unat a * unat b"
  by (simp add: unat_word_ariths)

lemma unat_ucast_16_32 [simp]: "unat (ucast (w :: u16) :: u32) = unat w"
  using unat_lt [of w] by (simp add: unsigned_ucast_eq take_bit_nat_eq_self)

lemma unat_ucast_32_64 [simp]: "unat (ucast (w :: u32) :: u64) = unat w"
  using unat_lt [of w] by (simp add: unsigned_ucast_eq take_bit_nat_eq_self)

lemma unat_ucast_16_64 [simp]: "unat (ucast (w :: u16) :: u64) = unat w"
  using unat_lt [of w] by (simp add: unsigned_ucast_eq take_bit_nat_eq_self)

lemma u16_le: "unat (w :: u16) \<le> 65535"
  using unat_lt [of w] by simp

lemma area_le: "unat (w :: u16) * unat (h :: u16) \<le> 65535 * 65535"
  by (intro mult_mono u16_le) simp_all

lemma volume_le: "unat (w :: u16) * unat (h :: u16) * unat (f :: u16) \<le> 65535 * 65535 * 65535"
  by (intro mult_mono area_le u16_le) simp_all

lemma unat_raw_bitrate:
  "unat (raw_bitrate_kbps (ucast (w :: u16)) (ucast (h :: u16)) (ucast (f :: u16)))
   = (unat w * unat h * 3 div 2) * 8 * unat f div 1000"
proof -
  let ?a = "ucast (ucast w :: u32) * ucast (ucast h :: u32) :: u64"
  have a: "unat ?a = unat w * unat h"
    using area_le [of w h] by (subst unat_mult64) simp_all
  have b: "unat (?a * 3) = unat w * unat h * 3"
    using area_le [of w h] by (subst unat_mult64) (simp_all add: a)
  have c: "unat (?a * 3 div 2) = unat w * unat h * 3 div 2"
    by (simp add: unat_div b)
  have d: "unat (?a * 3 div 2 * 8) = unat w * unat h * 3 div 2 * 8"
    using area_le [of w h] by (subst unat_mult64) (simp_all add: c)
  have "unat w * unat h * 3 div 2 * 8 * unat f \<le> (65535 * 65535 * 12) * 65535"
    by (rule mult_mono [OF _ u16_le]) (use area_le [of w h] in simp_all)
  then have "unat (?a * 3 div 2 * 8 * ucast (ucast f :: u32)) = unat w * unat h * 3 div 2 * 8 * unat f"
    by (subst unat_mult64) (simp_all add: d)
  then show ?thesis by (simp add: raw_bitrate_kbps_def unat_div)
qed

definition hevc_nat :: "nat \<Rightarrow> nat \<Rightarrow> nat \<Rightarrow> nat" where
  "hevc_nat w h f =
     (if w = 1280 \<and> h = 720 \<and> f = 30 then 12000
      else if w = 1280 \<and> h = 720 \<and> f = 60 then 20000
      else if w = 1920 \<and> h = 1080 \<and> f = 30 then 30000
      else if w = 1920 \<and> h = 1080 \<and> f = 60 then 50000
      else if w = 3840 \<and> h = 2160 \<and> f = 30 then 90000
      else w * h * f div 2560)"

lemma ucast_16_32_eq_iff: "(ucast (w :: u16) :: u32) = c \<longleftrightarrow> unat w = unat c"
  by (metis unat_ucast_16_32 word_unat_eq_iff)

lemma unat_hevc_target:
  "unat (hevc_target_kbps (ucast (w :: u16)) (ucast (h :: u16)) (ucast (f :: u16)))
   = hevc_nat (unat w) (unat h) (unat f)"
proof -
  let ?a = "ucast (ucast w :: u32) * ucast (ucast h :: u32) :: u64"
  have a: "unat ?a = unat w * unat h"
    using area_le [of w h] by (subst unat_mult64) simp_all
  have "unat (?a * ucast (ucast f :: u32)) = unat w * unat h * unat f"
    using volume_le [of w h f] by (subst unat_mult64) (simp_all add: a)
  then show ?thesis
    by (simp add: hevc_target_kbps_def hevc_nat_def ucast_16_32_eq_iff Let_def unat_div)
qed

lemma hevc_nat_le:
  "hevc_nat (unat (w :: u16)) (unat (h :: u16)) (unat (f :: u16)) \<le> 109946129689"
proof -
  have "unat w * unat h * unat f div 2560 \<le> 65535 * 65535 * 65535 div 2560"
    by (intro div_le_mono volume_le)
  then show ?thesis by (simp add: hevc_nat_def)
qed

lemma unat_hevc_mul8:
  "unat (hevc_target_kbps (ucast (w :: u16)) (ucast (h :: u16)) (ucast (f :: u16)) * 8 div 5)
   = hevc_nat (unat w) (unat h) (unat f) * 8 div 5"
  using hevc_nat_le [of w h f]
  by (simp add: unat_div unat_mult64 unat_hevc_target)

lemma unat_h264_target:
  "unat (h264_target_kbps (ucast (w :: u16)) (ucast (h :: u16)) (ucast (f :: u16)))
   = hevc_nat (unat w) (unat h) (unat f) * 8 div 5"
  by (simp add: h264_target_kbps_def unat_hevc_mul8)

text \<open>The bitrate tables never overflow on 16-bit dimensions: the wrapping 64-bit
  computations return the exact integer formulas of the documentation, raw NV12 at 12 bits
  per pixel, HEVC from the table and H.264 at 8/5 of it.\<close>

theorem bitrate_tables_exact:
  "unat (raw_bitrate_kbps (ucast (w :: u16)) (ucast (h :: u16)) (ucast (f :: u16)))
     = (unat w * unat h * 3 div 2) * 8 * unat f div 1000
   \<and> unat (hevc_target_kbps (ucast w) (ucast h) (ucast f)) = hevc_nat (unat w) (unat h) (unat f)
   \<and> unat (h264_target_kbps (ucast w) (ucast h) (ucast f))
     = hevc_nat (unat w) (unat h) (unat f) * 8 div 5"
  by (simp add: unat_raw_bitrate unat_hevc_target unat_h264_target)

end
