(* ===== verification/Adaptive_Select.thy ===== *)
theory Adaptive_Select
  imports Adaptive_Tables Std_Time "HOL-Library.Product_Lexorder"
begin

text \<open>
  Mode selection (\<open>crates/adaptive/src/select_mode.rs\<close>): the loop that collects the
  candidate modes that fit the measured bandwidth, the transport's ceiling and the user's
  limits, the raw-only filter, the ranking by (area, fps, raw before encoded) and the fallback.
  The specification \<open>admissible\<close> says which modes are allowed; the theorems show that
  the loop selects a maximal admissible mode, falls back exactly when there is none, never
  proposes raw video on Wi-Fi, and stays within 70% of the measured goodput in spite of
  the floating-point arithmetic.
\<close>

section \<open>The code\<close>

definition HEADROOM :: f64 where
  "HEADROOM = f64_lit (70 / 100)"

datatype format_pref = PrefRaw | PrefEncoded

fun pref_weight :: "format_pref \<Rightarrow> u8" where
  "pref_weight PrefRaw = 1"
| "pref_weight PrefEncoded = 0"

record candidate =
  ca_mode :: mode
  ca_res_area :: u64
  ca_fps :: u16
  ca_pref :: format_pref

definition over_limit :: "u16 \<Rightarrow> u16 option \<Rightarrow> bool" where
  "over_limit x bnd = (case bnd of None \<Rightarrow> False | Some mx \<Rightarrow> mx < x)"

text \<open>\<open>u32::try_from(x).unwrap_or(u32::MAX)\<close>.\<close>

definition u32_clamp :: "u64 \<Rightarrow> u32" where
  "u32_clamp x = (if unat x < 2 ^ 32 then ucast x else - 1)"

definition encoded_codec :: "available_mode \<Rightarrow> codec_name option" where
  "encoded_codec m =
     (if am_supports m Hevc then Some CnHevc
      else if am_supports m H264 then Some CnH264
      else None)"

fun codec_target :: "codec_name \<Rightarrow> u64 \<Rightarrow> u64" where
  "codec_target CnHevc target = target"
| "codec_target CnH264 target = (target * 8) div 5"
| "codec_target CnNone target = target"

definition raw_candidate :: "u64 \<Rightarrow> transport_class \<Rightarrow> available_mode \<Rightarrow> candidate list" where
  "raw_candidate usable_kbps transport m =
     (if am_supports m RawNv12 then
        let raw_kbps = raw_bitrate_kbps (ucast (am_width m)) (ucast (am_height m)) (ucast (am_fps m))
        in if raw_kbps \<le> usable_kbps \<and> raw_kbps \<le> raw_ceiling_kbps transport then
             [\<lparr> ca_mode = \<lparr> md_format = FmtRaw, md_codec = CnNone, md_width = am_width m,
                  md_height = am_height m, md_fps = am_fps m, md_bitrate_kbps = 0,
                  md_pixel_format = Nv12, md_full_range = True \<rparr>,
                ca_res_area = ucast (am_width m) * ucast (am_height m),
                ca_fps = am_fps m, ca_pref = PrefRaw \<rparr>]
           else []
      else [])"

definition encoded_candidate :: "u64 \<Rightarrow> available_mode \<Rightarrow> candidate list" where
  "encoded_candidate usable_kbps m =
     (case encoded_codec m of
        None \<Rightarrow> []
      | Some codec \<Rightarrow>
          let target = codec_target codec
                (hevc_target_kbps (ucast (am_width m)) (ucast (am_height m)) (ucast (am_fps m)))
          in if target \<le> usable_kbps then
               [\<lparr> ca_mode = \<lparr> md_format = FmtEncoded, md_codec = codec, md_width = am_width m,
                    md_height = am_height m, md_fps = am_fps m,
                    md_bitrate_kbps = u32_clamp target,
                    md_pixel_format = Nv12, md_full_range = True \<rparr>,
                  ca_res_area = ucast (am_width m) * ucast (am_height m),
                  ca_fps = am_fps m, ca_pref = PrefEncoded \<rparr>]
             else [])"

fun collect_candidates ::
    "u64 \<Rightarrow> transport_class \<Rightarrow> user_limits \<Rightarrow> available_mode list \<Rightarrow> candidate list" where
  "collect_candidates usable_kbps transport limits [] = []"
| "collect_candidates usable_kbps transport limits (m # ms) =
     (if over_limit (am_width m) (ul_max_width limits)
         \<or> over_limit (am_height m) (ul_max_height limits)
         \<or> over_limit (am_fps m) (ul_max_fps limits)
      then collect_candidates usable_kbps transport limits ms
      else raw_candidate usable_kbps transport m @ encoded_candidate usable_kbps m
           @ collect_candidates usable_kbps transport limits ms)"

definition safe_fallback :: mode where
  "safe_fallback =
     \<lparr> md_format = FmtEncoded, md_codec = CnH264, md_width = 1280, md_height = 720, md_fps = 30,
       md_bitrate_kbps = 12000 * 8 div 5, md_pixel_format = Nv12, md_full_range = True \<rparr>"

definition retain_raw :: "user_limits \<Rightarrow> candidate list \<Rightarrow> candidate list" where
  "retain_raw limits cands =
     (if ul_prefer_raw limits \<and> (\<exists>c \<in> set cands. ca_pref c = PrefRaw)
      then filter (\<lambda>c. ca_pref c = PrefRaw) cands else cands)"

definition ca_key :: "candidate \<Rightarrow> u64 \<times> u16 \<times> u8" where
  "ca_key c = (ca_res_area c, ca_fps c, pref_weight (ca_pref c))"

definition usable_kbps :: "measurement \<Rightarrow> u64" where
  "usable_kbps measurement = f64_as_u64 (me_goodput_mbps measurement * Fin 1000 * HEADROOM)"

definition select_mode ::
    "measurement \<Rightarrow> available_mode list \<Rightarrow> transport_class \<Rightarrow> user_limits \<Rightarrow> mode" where
  "select_mode measurement caps transport limits =
     (case max_by_key ca_key
             (retain_raw limits
               (collect_candidates (usable_kbps measurement) transport limits caps)) of
        None \<Rightarrow> safe_fallback
      | Some c \<Rightarrow> ca_mode c)"

section \<open>What is an admissible mode\<close>

text \<open>
  The specification, on natural numbers: the mode has the dimensions of an advertised mode
  inside the user's limits, is raw (and fits the bandwidth and the transport's ceiling) or
  uses the best codec the device supports there (and fits the bandwidth).
\<close>

definition within_limits :: "user_limits \<Rightarrow> mode \<Rightarrow> bool" where
  "within_limits limits md \<longleftrightarrow>
     (\<forall>mx. ul_max_width limits = Some mx \<longrightarrow> unat (md_width md) \<le> unat mx) \<and>
     (\<forall>mx. ul_max_height limits = Some mx \<longrightarrow> unat (md_height md) \<le> unat mx) \<and>
     (\<forall>mx. ul_max_fps limits = Some mx \<longrightarrow> unat (md_fps md) \<le> unat mx)"

definition mode_cost :: "mode \<Rightarrow> nat" where
  "mode_cost md =
     (case (md_format md, md_codec md) of
        (FmtRaw, _) \<Rightarrow>
          (unat (md_width md) * unat (md_height md) * 3 div 2) * 8 * unat (md_fps md) div 1000
      | (FmtEncoded, CnH264) \<Rightarrow>
          hevc_nat (unat (md_width md)) (unat (md_height md)) (unat (md_fps md)) * 8 div 5
      | (FmtEncoded, _) \<Rightarrow>
          hevc_nat (unat (md_width md)) (unat (md_height md)) (unat (md_fps md)))"

definition offered :: "available_mode \<Rightarrow> mode \<Rightarrow> bool" where
  "offered m md \<longleftrightarrow>
     md_width md = am_width m \<and> md_height md = am_height m \<and> md_fps md = am_fps m \<and>
     md_pixel_format md = Nv12 \<and> md_full_range md \<and>
     (md_format md = FmtRaw \<and> md_codec md = CnNone \<and> md_bitrate_kbps md = 0
        \<and> RawNv12 \<in> set (am_caps m)
      \<or> md_format md = FmtEncoded
        \<and> unat (md_bitrate_kbps md) = min (mode_cost md) (2 ^ 32 - 1)
        \<and> (md_codec md = CnHevc \<and> Hevc \<in> set (am_caps m)
           \<or> md_codec md = CnH264 \<and> H264 \<in> set (am_caps m) \<and> Hevc \<notin> set (am_caps m)))"

definition admissible ::
    "nat \<Rightarrow> transport_class \<Rightarrow> user_limits \<Rightarrow> available_mode list \<Rightarrow> mode \<Rightarrow> bool" where
  "admissible usable transport limits caps md \<longleftrightarrow>
     (\<exists>m \<in> set caps. offered m md) \<and> within_limits limits md \<and> mode_cost md \<le> usable \<and>
     (md_format md = FmtRaw \<longrightarrow> mode_cost md \<le> unat (raw_ceiling_kbps transport))"

text \<open>The rank of a mode: pixels, then frame rate, then raw before encoded.\<close>

definition rank :: "mode \<Rightarrow> nat \<times> nat \<times> nat" where
  "rank md = (unat (md_width md) * unat (md_height md), unat (md_fps md),
              if md_format md = FmtRaw then 1 else 0)"

section \<open>Candidates are the admissible modes\<close>

lemma over_limit_iff: "over_limit x bnd \<longleftrightarrow> \<not> (\<forall>mx. bnd = Some mx \<longrightarrow> unat x \<le> unat mx)"
  by (auto simp: over_limit_def word_le_nat_alt word_less_nat_alt not_le split: option.splits)

lemma collect_candidates_set:
  "set (collect_candidates u tr limits caps) =
   {c. \<exists>m \<in> set caps. \<not> over_limit (am_width m) (ul_max_width limits)
         \<and> \<not> over_limit (am_height m) (ul_max_height limits)
         \<and> \<not> over_limit (am_fps m) (ul_max_fps limits)
         \<and> c \<in> set (raw_candidate u tr m @ encoded_candidate u m)}"
  by (induction caps) auto

lemma unat_u32_clamp: "unat (u32_clamp x) = min (unat x) (2 ^ 32 - 1)"
proof (cases "unat x < 2 ^ 32")
  case True
  then show ?thesis
    by (simp add: u32_clamp_def unsigned_ucast_eq take_bit_nat_eq_self)
next
  case False
  then show ?thesis by (simp add: u32_clamp_def unsigned_minus_1_eq_mask mask_eq_exp_minus_1)
qed

lemma am_supports_mem: "am_supports m c \<longleftrightarrow> c \<in> set (am_caps m)"
  by (auto simp: am_supports_def)

text \<open>The candidate the code builds for a mode.\<close>

definition cand_of :: "mode \<Rightarrow> candidate" where
  "cand_of md =
     \<lparr> ca_mode = md, ca_res_area = ucast (md_width md) * ucast (md_height md),
       ca_fps = md_fps md, ca_pref = (if md_format md = FmtRaw then PrefRaw else PrefEncoded) \<rparr>"

lemma ca_mode_cand_of [simp]: "ca_mode (cand_of md) = md"
  by (simp add: cand_of_def)

lemma ca_pref_cand_of [simp]: "ca_pref (cand_of md) = PrefRaw \<longleftrightarrow> md_format md = FmtRaw"
  by (simp add: cand_of_def)

lemma raw_candidate_set:
  "set (raw_candidate u tr m) =
   cand_of ` {md. offered m md \<and> md_format md = FmtRaw \<and> mode_cost md \<le> unat u
                \<and> mode_cost md \<le> unat (raw_ceiling_kbps tr)}"
proof -
  let ?md = "\<lparr> md_format = FmtRaw, md_codec = CnNone, md_width = am_width m,
                  md_height = am_height m, md_fps = am_fps m, md_bitrate_kbps = 0,
                  md_pixel_format = Nv12, md_full_range = True \<rparr>"
  have off: "offered m md \<and> md_format md = FmtRaw \<longleftrightarrow> md = ?md \<and> RawNv12 \<in> set (am_caps m)" for md
    by (cases md) (auto simp: offered_def)
  have "{md. (offered m md \<and> md_format md = FmtRaw) \<and> mode_cost md \<le> unat u
                \<and> mode_cost md \<le> unat (raw_ceiling_kbps tr)}
    = (if RawNv12 \<in> set (am_caps m) \<and> mode_cost ?md \<le> unat u
          \<and> mode_cost ?md \<le> unat (raw_ceiling_kbps tr) then {?md} else {})"
    unfolding off by auto
  then show ?thesis
    by (simp add: raw_candidate_def Let_def am_supports_mem word_le_nat_alt unat_raw_bitrate
          mode_cost_def cand_of_def)
qed

lemma codec_target_cost:
  assumes "md_format md = FmtEncoded"
  shows "unat (codec_target (md_codec md)
           (hevc_target_kbps (ucast (md_width md)) (ucast (md_height md)) (ucast (md_fps md))))
         = mode_cost md"
  using assms
  by (cases "md_codec md") (simp_all add: mode_cost_def unat_hevc_target unat_hevc_mul8)

lemma encoded_candidate_set:
  "set (encoded_candidate u m) =
   cand_of ` {md. offered m md \<and> md_format md = FmtEncoded \<and> mode_cost md \<le> unat u}"
proof -
  define tgt where "tgt k = codec_target k
    (hevc_target_kbps (ucast (am_width m)) (ucast (am_height m)) (ucast (am_fps m)))" for k
  define emode where "emode k = \<lparr> md_format = FmtEncoded, md_codec = k, md_width = am_width m,
    md_height = am_height m, md_fps = am_fps m, md_bitrate_kbps = u32_clamp (tgt k),
    md_pixel_format = Nv12, md_full_range = True \<rparr>" for k
  have cost: "unat (tgt k) = mode_cost (emode k)" for k
    using codec_target_cost [of "emode k"] by (simp add: tgt_def emode_def)
  have off: "offered m md \<and> md_format md = FmtEncoded \<longleftrightarrow>
      (\<exists>k. encoded_codec m = Some k \<and> md = emode k)" for md
  proof
    assume r: "offered m md \<and> md_format md = FmtEncoded"
    then have "mode_cost md = unat (tgt (md_codec md))"
      using codec_target_cost [of md] by (auto simp: tgt_def offered_def)
    with r have "unat (md_bitrate_kbps md) = unat (u32_clamp (tgt (md_codec md)))"
      by (auto simp: unat_u32_clamp offered_def)
    then have "md_bitrate_kbps md = u32_clamp (tgt (md_codec md))"
      by (simp only: word_unat_eq_iff)
    with r have "md = emode (md_codec md)" by (cases md) (auto simp: offered_def emode_def)
    moreover have "encoded_codec m = Some (md_codec md)"
      using r by (auto simp: offered_def encoded_codec_def am_supports_mem)
    ultimately show "\<exists>k. encoded_codec m = Some k \<and> md = emode k" by blast
  next
    assume "\<exists>k. encoded_codec m = Some k \<and> md = emode k"
    then obtain k where k: "encoded_codec m = Some k" "md = emode k" by blast
    then show "offered m md \<and> md_format md = FmtEncoded"
      using cost [of k]
      by (auto simp: offered_def encoded_codec_def am_supports_mem emode_def unat_u32_clamp
            split: if_splits)
  qed
  have "set (encoded_candidate u m) =
      cand_of ` {md. (\<exists>k. encoded_codec m = Some k \<and> md = emode k \<and> unat (tgt k) \<le> unat u)}"
    by (auto simp: encoded_candidate_def Let_def tgt_def emode_def cand_of_def word_le_nat_alt
          split: option.splits)
  also have "{md. (\<exists>k. encoded_codec m = Some k \<and> md = emode k \<and> unat (tgt k) \<le> unat u)}
      = {md. (offered m md \<and> md_format md = FmtEncoded) \<and> mode_cost md \<le> unat u}"
    unfolding off by (auto simp: cost)
  finally show ?thesis by (simp only: conj_assoc)
qed

text \<open>The loop collects exactly the admissible modes.\<close>

lemma mode_candidates_set:
  "c \<in> set (raw_candidate u tr m @ encoded_candidate u m) \<longleftrightarrow>
   (\<exists>md. c = cand_of md \<and> offered m md \<and> mode_cost md \<le> unat u \<and>
      (md_format md = FmtRaw \<longrightarrow> mode_cost md \<le> unat (raw_ceiling_kbps tr)))"
proof -
  have "md_format md = FmtEncoded \<longleftrightarrow> md_format md \<noteq> FmtRaw" for md by (cases "md_format md") simp_all
  then show ?thesis
    unfolding set_append Un_iff raw_candidate_set encoded_candidate_set image_iff mem_Collect_eq bex_simps
    by blast
qed

lemma offered_limits:
  "offered m md \<Longrightarrow> within_limits limits md \<longleftrightarrow>
     \<not> over_limit (am_width m) (ul_max_width limits) \<and> \<not> over_limit (am_height m) (ul_max_height limits)
     \<and> \<not> over_limit (am_fps m) (ul_max_fps limits)"
  by (simp only: offered_def within_limits_def over_limit_iff not_not)

lemma candidates_admissible:
  "set (collect_candidates u tr limits caps)
   = cand_of ` {md. admissible (unat u) tr limits caps md}"
proof -
  have "c \<in> set (collect_candidates u tr limits caps) \<longleftrightarrow>
      (\<exists>md. c = cand_of md \<and> admissible (unat u) tr limits caps md)" for c
    unfolding collect_candidates_set mode_candidates_set admissible_def mem_Collect_eq
    using offered_limits by blast
  then show ?thesis by blast
qed

lemma unat_area: "unat (ucast (w :: u16) * ucast (h :: u16) :: u64) = unat w * unat h"
  using area_le [of w h] by (subst unat_mult64) simp_all

text \<open>The key the code ranks candidates by orders them as the rank of their modes.\<close>

lemma ca_key_le_iff: "ca_key (cand_of a) \<le> ca_key (cand_of b) \<longleftrightarrow> rank a \<le> rank b"
  by (simp add: ca_key_def cand_of_def rank_def less_eq_prod_def word_less_nat_alt
        word_le_nat_alt unat_area)

lemma retain_raw_set:
  "set (retain_raw limits cs) =
   {c \<in> set cs. ul_prefer_raw limits \<and> (\<exists>d \<in> set cs. ca_pref d = PrefRaw)
      \<longrightarrow> ca_pref c = PrefRaw}"
  by (auto simp: retain_raw_def)

lemma candidates_empty_iff:
  "collect_candidates u tr limits caps = [] \<longleftrightarrow> (\<forall>md. \<not> admissible (unat u) tr limits caps md)"
  using candidates_admissible [of u tr limits caps] by (auto simp: set_empty2 [symmetric])

text \<open>The modes that compete: raw ones only when the user prefers raw and one is admissible.\<close>

definition pool :: "nat \<Rightarrow> transport_class \<Rightarrow> user_limits \<Rightarrow> available_mode list \<Rightarrow> mode set" where
  "pool u tr limits caps =
     {md. admissible u tr limits caps md \<and>
        (ul_prefer_raw limits \<and> (\<exists>r. admissible u tr limits caps r \<and> md_format r = FmtRaw)
         \<longrightarrow> md_format md = FmtRaw)}"

lemma pool_candidates:
  "set (retain_raw limits (collect_candidates u tr limits caps))
   = cand_of ` pool (unat u) tr limits caps"
  unfolding retain_raw_set candidates_admissible pool_def by (auto simp: image_iff)

lemma pool_empty_iff:
  "pool u tr limits caps = {} \<longleftrightarrow> (\<forall>md. \<not> admissible u tr limits caps md)"
  by (auto simp: pool_def)

lemma select_mode_pool:
  assumes "pool (unat (usable_kbps meas)) tr limits caps \<noteq> {}"
  shows "select_mode meas caps tr limits \<in> pool (unat (usable_kbps meas)) tr limits caps"
    and "md \<in> pool (unat (usable_kbps meas)) tr limits caps
         \<Longrightarrow> rank md \<le> rank (select_mode meas caps tr limits)"
proof -
  let ?cs = "retain_raw limits (collect_candidates (usable_kbps meas) tr limits caps)"
  have "?cs \<noteq> []" using assms pool_candidates [of limits "usable_kbps meas" tr caps] by auto
  then obtain c where c: "max_by_key ca_key ?cs = Some c"
    by (cases "max_by_key ca_key ?cs") auto
  from max_by_key_Some(1) [OF c] obtain r
    where r: "c = cand_of r" "r \<in> pool (unat (usable_kbps meas)) tr limits caps"
    unfolding pool_candidates by auto
  have sel: "select_mode meas caps tr limits = r"
    by (simp add: select_mode_def c r(1))
  show "select_mode meas caps tr limits \<in> pool (unat (usable_kbps meas)) tr limits caps"
    using r(2) by (simp add: sel)
  show "rank md \<le> rank (select_mode meas caps tr limits)"
    if "md \<in> pool (unat (usable_kbps meas)) tr limits caps"
    using max_by_key_Some(2) [OF c, of "cand_of md"] that
    unfolding pool_candidates by (auto simp: r(1) sel ca_key_le_iff)
qed

lemma select_mode_fallback:
  "pool (unat (usable_kbps meas)) tr limits caps = {}
   \<Longrightarrow> select_mode meas caps tr limits = safe_fallback"
  using pool_candidates [of limits "usable_kbps meas" tr caps]
  by (simp add: select_mode_def)

section \<open>The usable bandwidth\<close>

lemma HEADROOM_val: "HEADROOM = Fin (3152519739159347 / 4503599627370496)"
proof -
  have fl: "\<lfloor>31525197391593472 / 5 :: rat\<rfloor> = 6305039478318694"
    by (rule floor_unique) simp_all
  have "round_rat (7 / 10) = of_int (round_half_even (7 / 10 / pow2 (- 1 - 52))) * pow2 (- 1 - 52)"
    by (rule round_rat_eval) (simp_all add: pow2_def)
  also have "round_half_even (7 / 10 / pow2 (- 1 - 52)) = 6305039478318694"
    by (simp add: pow2_def round_half_even_def Let_def fl)
  finally show ?thesis
    by (simp add: HEADROOM_def f64_round_def Let_def pow2_def)
qed

lemma f64_round_not_NaN [simp]: "f64_round x \<noteq> NaN"
  by (simp add: f64_round_def Let_def)

lemma f64_round_le_PInf [simp]: "f64_round q \<le> PInf"
  by (simp add: f64_round_def Let_def less_eq_f64_def)

lemma NInf_le_f64_round [simp]: "NInf \<le> f64_round q"
  by (simp add: f64_round_def Let_def less_eq_f64_def)

lemma f64_mul_pos_mono:
  assumes "x \<le> y" and "0 < c"
  shows "x * Fin c \<le> y * Fin c"
proof (cases "\<exists>a b. x = Fin a \<and> y = Fin b")
  case True
  then obtain a b where "x = Fin a" "y = Fin b" by blast
  with assms have "f64_round (a * c) \<le> f64_round (b * c)"
    by (intro f64_round_mono) (auto simp: less_eq_f64_def)
  then show ?thesis by (simp add: times_f64_def \<open>x = Fin a\<close> \<open>y = Fin b\<close>)
next
  case False
  moreover have "PInf \<le> PInf" "NInf \<le> NInf" "NInf \<le> PInf" by (simp_all add: less_eq_f64_def)
  ultimately show ?thesis
    using assms by (cases x; cases y) (simp_all add: times_f64_def less_eq_f64_def f64_inf_def f64_round_def Let_def)
qed

lemma usable_kbps_mono:
  "me_goodput_mbps a \<le> me_goodput_mbps b \<Longrightarrow> usable_kbps a \<le> usable_kbps b"
  unfolding usable_kbps_def HEADROOM_val
  by (intro f64_as_u64_mono f64_mul_pos_mono) simp_all

lemma admissible_mono:
  "u \<le> v \<Longrightarrow> admissible u tr limits caps md \<Longrightarrow> admissible v tr limits caps md"
  by (auto simp: admissible_def)

text \<open>Three roundings in a row overestimate by less than one part in \<open>2 ^ 51\<close>.\<close>

lemma headroom_product_bound:
  assumes "1 \<le> S" and "S < 2 ^ 40"
  shows "10 * round_rat (round_rat (round_rat (of_int S / 1000) * 1000)
            * (3152519739159347 / 4503599627370496)) < 7 * of_int S + 1"
proof -
  let ?e = "1 + 1 / 2 ^ 53 :: rat"
  define r1 where "r1 = round_rat (of_int S / 1000)"
  define r2 where "r2 = round_rat (r1 * 1000)"
  let ?h = "3152519739159347 / 4503599627370496 :: rat"
  have S: "(1 :: rat) \<le> of_int S" "of_int S < (2 ^ 40 :: rat)"
    using assms by (simp_all add: of_int_less_iff [of S "2 ^ 40", symmetric, simplified]
                     del: of_int_less_iff)
  have tiny: "pow2 (- 1022) \<le> q" if "1 / 1024 \<le> q" for q
  proof -
    have "pow2 (- 1022) \<le> pow2 (- 10)" by (rule pow2_mono) simp
    then show ?thesis using that by (simp add: pow2_def [of "- 10"])
  qed
  have rep: "representable (1 / 1024)" "representable (1 / 2)"
    unfolding representable_def
    by (rule round_rat_exact [of _ 1 "- 10"]; simp add: pow2_def)
      (rule round_rat_exact [of _ 1 "- 1"]; simp add: pow2_def)
  have "1 / 1024 \<le> (of_int S :: rat) / 1000" using S by (simp add: le_divide_eq)
  then have r1: "1 / 1024 \<le> r1" "r1 \<le> of_int S / 1000 * ?e"
    unfolding r1_def using round_rat_ge [OF rep(1)] round_rat_rel_upper tiny by blast+
  have "1 / 2 \<le> r1 * 1000" using r1(1) by simp
  then have r2: "1 / 2 \<le> r2" "r2 \<le> r1 * 1000 * ?e"
    unfolding r2_def
    by (rule round_rat_ge [OF rep(2)]) (rule round_rat_rel_upper, rule tiny, use r1(1) in simp)
  have "round_rat (r2 * ?h) \<le> r2 * ?h * ?e"
    using r2(1) by (intro round_rat_rel_upper tiny) simp
  then have "10 * round_rat (r2 * ?h) \<le> 7 * of_int S * ?e * ?e * ?e"
    using r1 r2 by simp
  also have "\<dots> < 7 * of_int S + 1" using S by simp
  finally show ?thesis by (simp add: r1_def r2_def)
qed

lemma f64_round_small:
  assumes "0 \<le> x" and "x \<le> 2 ^ 50"
  shows "f64_round x = Fin (round_rat x)" and "0 \<le> round_rat x" and "round_rat x \<le> 2 ^ 50"
proof -
  have "representable (2 ^ 50)"
    unfolding representable_def by (rule round_rat_exact [of _ 1 50]) (simp_all add: pow2_def)
  then show le: "round_rat x \<le> 2 ^ 50" using assms(2) by (rule round_rat_le)
  show ge: "0 \<le> round_rat x" using assms(1) by (rule round_rat_nonneg)
  have "(2 :: rat) ^ 50 < 2 ^ 1024" by (intro power_strict_increasing) simp_all
  then show "f64_round x = Fin (round_rat x)"
    using le ge by (intro f64_round_Fin) simp
qed

lemma usable_within_headroom:
  assumes "0 \<le> S" and "S < 2 ^ 40" and "me_goodput_mbps meas = f64_of_int S / Fin 1000"
  shows "10 * uint (usable_kbps meas) \<le> 7 * S"
proof (cases "S = 0")
  case True
  then show ?thesis
    using assms(3) by (simp add: usable_kbps_def uint_f64_as_u64 HEADROOM_val f64_of_int_def
        f64_op_defs f64_round_def)
next
  case False
  define r1 where "r1 = round_rat (of_int S / 1000)"
  define r2 where "r2 = round_rat (r1 * 1000)"
  define r3 where "r3 = round_rat (r2 * (3152519739159347 / 4503599627370496))"
  have S: "1 \<le> S" using assms(1) False by simp
  have b: "10 * r3 < 7 * of_int S + 1"
    unfolding r1_def r2_def r3_def using S assms(2) by (rule headroom_product_bound)
  have "(of_int S :: rat) \<le> of_int (2 ^ 40)" using assms(2) by (simp only: of_int_le_iff)
  then have S': "0 \<le> (of_int S :: rat)" "(of_int S :: rat) \<le> 2 ^ 40" using S by simp_all
  have "representable (2 ^ 31)"
    unfolding representable_def by (rule round_rat_exact [of _ 1 31]) (simp_all add: pow2_def)
  then have r1: "0 \<le> r1" "r1 \<le> 2 ^ 31" "f64_round (of_int S / 1000) = Fin r1"
    unfolding r1_def using S' by (auto intro: round_rat_le f64_round_small)
  have r2: "0 \<le> r2" "r2 \<le> 2 ^ 50" "f64_round (r1 * 1000) = Fin r2"
    unfolding r2_def using r1 by (intro f64_round_small; simp)+
  have r3: "0 \<le> r3" "f64_round (r2 * (3152519739159347 / 4503599627370496)) = Fin r3"
    unfolding r3_def using r2 by (intro f64_round_small; simp)+
  have "f64_of_int S = Fin (of_int S)"
    using assms(1,2) S' f64_round_small(1) [of "of_int S"]
    by (simp add: f64_of_int_def round_rat_int)
  then have "uint (usable_kbps meas) = f64_to_int_sat (2 ^ 64 - 1) (Fin r3)"
    using r1 r2 r3
    by (simp add: usable_kbps_def uint_f64_as_u64 HEADROOM_val assms(3) f64_op_defs)
  also have "\<dots> \<le> \<lfloor>r3\<rfloor>" using r3(1) by simp
  finally have "of_int (uint (usable_kbps meas)) \<le> r3" by linarith
  with b have "(of_int (10 * uint (usable_kbps meas)) :: rat) < of_int (7 * S + 1)" by simp
  then show ?thesis by (simp only: of_int_less_iff)
qed

lemma selected_cost_usable:
  assumes "select_mode meas caps tr limits \<noteq> safe_fallback"
  shows "int (mode_cost (select_mode meas caps tr limits)) \<le> uint (usable_kbps meas)"
proof -
  have "pool (unat (usable_kbps meas)) tr limits caps \<noteq> {}"
    using assms select_mode_fallback by blast
  then have "mode_cost (select_mode meas caps tr limits) \<le> unat (usable_kbps meas)"
    using select_mode_pool(1) by (auto simp: pool_def admissible_def)
  then have "int (mode_cost (select_mode meas caps tr limits)) \<le> int (unat (usable_kbps meas))"
    by (simp only: of_nat_le_iff)
  then show ?thesis by simp
qed

lemma f64_round_int: "\<bar>n\<bar> \<le> 2 ^ 50 \<Longrightarrow> 0 \<le> n \<Longrightarrow> f64_round (of_int n) = Fin (of_int n)"
proof -
  assume n: "\<bar>n\<bar> \<le> 2 ^ 50" "0 \<le> n"
  then have "(of_int n :: rat) \<le> of_int (2 ^ 50)" by (simp only: of_int_le_iff)
  then show ?thesis using n f64_round_small(1) [of "of_int n"] by (simp add: round_rat_int)
qed

section \<open>Properties\<close>

text \<open>C22. Mode selection is optimal: when some advertised mode is admissible (inside the
  user's limits, its bitrate within the usable bandwidth and, for raw video, the transport's
  ceiling) the selected mode is admissible and no competing mode ranks above it by (pixels,
  frame rate, raw first), where only raw modes compete if raw is preferred and one is
  admissible; when no mode is admissible the result is the safe fallback.\<close>

theorem select_mode_optimal:
  "if \<exists>md. admissible (unat (usable_kbps meas)) tr limits caps md
   then admissible (unat (usable_kbps meas)) tr limits caps (select_mode meas caps tr limits)
      \<and> select_mode meas caps tr limits \<in> pool (unat (usable_kbps meas)) tr limits caps
      \<and> (\<forall>md \<in> pool (unat (usable_kbps meas)) tr limits caps.
            rank md \<le> rank (select_mode meas caps tr limits))
   else select_mode meas caps tr limits = safe_fallback"
proof (cases "pool (unat (usable_kbps meas)) tr limits caps = {}")
  case True
  then show ?thesis
    using select_mode_fallback [OF True] by (auto simp: pool_empty_iff)
next
  case False
  note sel = select_mode_pool [OF False]
  have "admissible (unat (usable_kbps meas)) tr limits caps (select_mode meas caps tr limits)"
    using sel(1) by (simp add: pool_def)
  then show ?thesis using sel by auto
qed

definition meas_100 :: measurement where
  "meas_100 = \<lparr> me_goodput_mbps = Fin 100, me_rtt_ms = Fin 5, me_jitter_ms = Fin 0,
     me_loss_pct = Fin 0 \<rparr>"

definition modes_720_1080 :: "available_mode list" where
  "modes_720_1080 =
     [\<lparr> am_width = 1280, am_height = 720, am_fps = 30, am_caps = [H264, RawNv12] \<rparr>,
      \<lparr> am_width = 1920, am_height = 1080, am_fps = 30, am_caps = [Hevc, H264] \<rparr>]"

definition no_limits :: user_limits where
  "no_limits = \<lparr> ul_max_width = None, ul_max_height = None, ul_max_fps = None,
     ul_prefer_raw = False \<rparr>"

lemma usable_meas_100: "usable_kbps meas_100 = 70000"
proof -
  have fl: "\<lfloor>9851624184872959375 / 2048 :: rat\<rfloor> = 4810363371519999"
    by (rule floor_unique) simp_all
  have one: "f64_round 100000 = Fin 100000"
    using f64_round_small(1) [of 100000] round_rat_int [of 100000] by simp
  let ?x = "100000 * (3152519739159347 / 4503599627370496) :: rat"
  have "round_rat ?x = of_int (round_half_even (?x / pow2 (16 - 52))) * pow2 (16 - 52)"
    by (rule round_rat_eval) (simp_all add: pow2_def)
  also have "round_half_even (?x / pow2 (16 - 52)) = 4810363371520000"
    by (simp add: pow2_def round_half_even_def Let_def fl)
  finally have "f64_round ?x = Fin 70000"
    using f64_round_small(1) [of ?x] by (simp add: pow2_def)
  then show ?thesis
    by (simp add: usable_kbps_def meas_100_def HEADROOM_val f64_op_defs one f64_as_u64_def)
qed

lemmas select_eval = select_mode_def retain_raw_def raw_candidate_def encoded_candidate_def
  over_limit_def am_supports_def encoded_codec_def raw_bitrate_kbps_def hevc_target_kbps_def
  ca_key_def u32_clamp_def modes_720_1080_def no_limits_def usable_meas_100 Let_def

lemma select_720_1080:
  "select_mode meas_100 modes_720_1080 TcWiFi no_limits = default_streaming_1080p30"
  by (simp add: select_eval default_streaming_1080p30_def)

theorem select_mode_optimal_witness:
  "select_mode meas_100 modes_720_1080 TcWiFi no_limits = default_streaming_1080p30 \<and>
   admissible 70000 TcWiFi no_limits modes_720_1080 default_streaming_1080p30 \<and>
   default_streaming_1080p30 \<in> pool 70000 TcWiFi no_limits modes_720_1080"
proof -
  have "admissible 70000 TcWiFi no_limits modes_720_1080 default_streaming_1080p30"
    by (simp add: admissible_def modes_720_1080_def no_limits_def within_limits_def offered_def
        default_streaming_1080p30_def mode_cost_def hevc_nat_def)
  then have "\<exists>md. admissible (unat (usable_kbps meas_100)) TcWiFi no_limits modes_720_1080 md"
    by (auto simp: usable_meas_100)
  then show ?thesis
    using select_mode_optimal [of meas_100 TcWiFi no_limits modes_720_1080]
    by (simp only: if_True simp_thms select_720_1080) (simp add: usable_meas_100)
qed

text \<open>The headroom holds in spite of floating point: for a goodput the speedtest
  produced from \<open>S\<close> kbit/s, below a terabit, the selected mode costs at most 70% of \<open>S\<close>,
  exactly, unless it is the fallback.\<close>

lemma selected_within_headroom:
  assumes "0 \<le> S" and "S < 2 ^ 40"
    and "me_goodput_mbps meas = f64_of_int S / Fin 1000"
    and "select_mode meas caps tr limits \<noteq> safe_fallback"
  shows "10 * int (mode_cost (select_mode meas caps tr limits)) \<le> 7 * S"
  using selected_cost_usable [OF assms(4)] usable_within_headroom [OF assms(1-3)] by linarith

lemma select_wifi_encoded:
  assumes "\<And>m. m \<in> set caps \<Longrightarrow> 84 \<le> unat (am_width m) * unat (am_height m) \<and> 1 \<le> unat (am_fps m)"
  shows "md_format (select_mode meas caps TcWiFi limits) = FmtEncoded"
proof (cases "pool (unat (usable_kbps meas)) TcWiFi limits caps = {}")
  case True
  then show ?thesis by (simp add: select_mode_fallback safe_fallback_def)
next
  case False
  let ?md = "select_mode meas caps TcWiFi limits"
  have adm: "admissible (unat (usable_kbps meas)) TcWiFi limits caps ?md"
    using select_mode_pool(1) [OF False] by (simp add: pool_def)
  show ?thesis
  proof (rule ccontr)
    assume "md_format ?md \<noteq> FmtEncoded"
    then have raw: "md_format ?md = FmtRaw" using format_kind.exhaust by blast
    obtain m where m: "m \<in> set caps" "offered m ?md" using adm by (auto simp: admissible_def)
    have "84 * 3 div 2 * 8 * 1
        \<le> unat (md_width ?md) * unat (md_height ?md) * 3 div 2 * 8 * unat (md_fps ?md)"
      using assms [OF m(1)] m(2) unfolding offered_def
      by (intro mult_mono div_le_mono) auto
    then have "1 \<le> mode_cost ?md" using raw by (simp add: mode_cost_def)
    then show False using adm raw by (simp add: admissible_def)
  qed
qed

text \<open>Wi-Fi never gets raw video: when every advertised mode has at least 84 pixels and
  one frame per second, the mode selected for Wi-Fi is encoded, whatever was measured and
  even if the user prefers raw.\<close>

theorem wifi_never_raw:
  assumes "\<And>m. m \<in> set caps \<Longrightarrow> 84 \<le> unat (am_width m) * unat (am_height m) \<and> 1 \<le> unat (am_fps m)"
  shows "md_format (select_mode meas caps TcWiFi limits) = FmtEncoded"
  using assms by (rule select_wifi_encoded)

theorem wifi_never_raw_witness:
  "md_format (select_mode (meas_100\<lparr>me_goodput_mbps := PInf\<rparr>) modes_720_1080 TcWiFi
     (no_limits\<lparr>ul_prefer_raw := True\<rparr>)) = FmtEncoded"
  by (rule wifi_never_raw) (auto simp: modes_720_1080_def)

text \<open>More bandwidth never gives a worse mode: without the raw preference, when a mode
  is admissible at the lower goodput, the mode selected at a higher goodput ranks at least
  as high.\<close>

theorem select_mode_mono:
  assumes "me_goodput_mbps a \<le> me_goodput_mbps b" and "\<not> ul_prefer_raw limits"
    and "admissible (unat (usable_kbps a)) tr limits caps md"
  shows "rank (select_mode a caps tr limits) \<le> rank (select_mode b caps tr limits)"
proof -
  let ?P = "\<lambda>m. pool (unat (usable_kbps m)) tr limits caps"
  have "unat (usable_kbps a) \<le> unat (usable_kbps b)"
    using usable_kbps_mono [OF assms(1)] by (simp add: word_le_nat_alt)
  then have sub: "?P a \<subseteq> ?P b" using assms(2) admissible_mono by (auto simp: pool_def)
  have "?P a \<noteq> {}" using assms(2,3) by (auto simp: pool_def)
  then have "select_mode a caps tr limits \<in> ?P a" by (rule select_mode_pool(1))
  with sub show ?thesis by (intro select_mode_pool(2)) auto
qed

theorem select_mode_mono_witness:
  "rank default_streaming_1080p30
   \<le> rank (select_mode (meas_100\<lparr>me_goodput_mbps := PInf\<rparr>) modes_720_1080 TcWiFi no_limits)"
proof -
  have "rank (select_mode meas_100 modes_720_1080 TcWiFi no_limits)
   \<le> rank (select_mode (meas_100\<lparr>me_goodput_mbps := PInf\<rparr>) modes_720_1080 TcWiFi no_limits)"
  proof (rule select_mode_mono)
    show "admissible (unat (usable_kbps meas_100)) TcWiFi no_limits modes_720_1080
        default_streaming_1080p30"
      by (simp add: usable_meas_100 admissible_def modes_720_1080_def no_limits_def
          within_limits_def offered_def default_streaming_1080p30_def mode_cost_def hevc_nat_def)
  qed (simp_all add: meas_100_def no_limits_def less_eq_f64_def)
  then show ?thesis by (simp only: select_720_1080)
qed

end
