(* ===== verification/Adaptive_Speedtest.thy ===== *)
theory Adaptive_Speedtest
  imports Adaptive_Select
begin

text \<open>
  The speedtest aggregator (\<open>crates/adaptive/src/speedtest.rs\<close>): the plan of the ramp, the
  reduction of the per-step counters to one measurement, and the sizing helpers. The
  theorems: the reported goodput is the best step that passed the 85% and RTT tests, the
  mode selected from a speedtest costs at most 70% of a rate that was measured, and the
  helpers' 64-bit arithmetic is exact in the range the ramp uses.
\<close>

section \<open>The code\<close>

definition DEFAULT_RAMP_KBPS :: "u64 list" where
  "DEFAULT_RAMP_KBPS = [50000, 100000, 200000, 400000, 800000]"

definition DEFAULT_STEP_MS :: u64 where
  "DEFAULT_STEP_MS = 500"

record step_observation =
  so_target_kbps :: u64
  so_received_bytes :: u64
  so_duration :: duration
  so_avg_rtt_ms :: f64

definition measured_kbps :: "step_observation \<Rightarrow> u64" where
  "measured_kbps obs =
     (let secs = as_secs_f64 (so_duration obs)
      in if secs \<le> 0 then 0
         else f64_as_u64 (f64_of_int (uint (so_received_bytes obs)) * Fin 8 / Fin 1000 / secs))"

record speedtest_plan =
  sp_pattern :: speedtest_pattern
  sp_steps_kbps :: "u64 list"
  sp_step_duration :: duration

definition default_ramp :: speedtest_plan where
  "default_ramp =
     \<lparr> sp_pattern = Ramp, sp_steps_kbps = DEFAULT_RAMP_KBPS,
       sp_step_duration = from_millis (unat DEFAULT_STEP_MS) \<rparr>"

definition total_duration :: "speedtest_plan \<Rightarrow> duration option" where
  "total_duration plan =
     (let n = length (sp_steps_kbps plan)
      in duration_mul (sp_step_duration plan) (if n < 2 ^ 32 then word_of_nat n else - 1))"

definition fits_throughput :: "step_observation \<Rightarrow> bool" where
  "fits_throughput obs \<longleftrightarrow>
     f64_of_int (uint (so_target_kbps obs)) * f64_lit (85 / 100)
       \<le> f64_of_int (uint (measured_kbps obs))"

definition rtt_ok :: "f64 \<Rightarrow> step_observation \<Rightarrow> bool" where
  "rtt_ok baseline_rtt_ms obs \<longleftrightarrow>
     baseline_rtt_ms \<le> 0 \<or> so_avg_rtt_ms obs \<le> baseline_rtt_ms * Fin 2"

fun evaluate_loop :: "f64 \<Rightarrow> step_observation list \<Rightarrow> u64 \<Rightarrow> f64 \<Rightarrow> u64 \<times> f64" where
  "evaluate_loop baseline_rtt_ms [] sustained_kbps max_rtt = (sustained_kbps, max_rtt)"
| "evaluate_loop baseline_rtt_ms (obs # rest) sustained_kbps max_rtt =
     (let measured = measured_kbps obs;
          sustained' = (if fits_throughput obs \<and> rtt_ok baseline_rtt_ms obs
                        then max sustained_kbps (min measured (so_target_kbps obs))
                        else sustained_kbps)
      in evaluate_loop baseline_rtt_ms rest sustained' (f64_max max_rtt (so_avg_rtt_ms obs)))"

definition evaluate :: "step_observation list \<Rightarrow> f64 \<Rightarrow> measurement" where
  "evaluate observations baseline_rtt_ms =
     (let (sustained_kbps, max_rtt) = evaluate_loop baseline_rtt_ms observations 0 baseline_rtt_ms
      in \<lparr> me_goodput_mbps = f64_of_int (uint sustained_kbps) / Fin 1000,
           me_rtt_ms = max_rtt, me_jitter_ms = Fin 0, me_loss_pct = Fin 0 \<rparr>)"

definition expected_step_bytes :: "u64 \<Rightarrow> duration \<Rightarrow> u64" where
  "expected_step_bytes target_kbps duration =
     (target_kbps * 1000 * word_of_nat (as_millis duration)) div 8 div 1000"

definition frames_per_step_for_target :: "u64 \<Rightarrow> u32 \<Rightarrow> u32 \<Rightarrow> u64 \<Rightarrow> u32" where
  "frames_per_step_for_target target_kbps width height step_ms =
     (let frame_bits = ucast width * ucast height * 12
      in if frame_bits = 0 then 0
         else let total_bits = target_kbps * 1000 * step_ms div 1000
              in u32_clamp (max (total_bits div frame_bits) 1))"

section \<open>The reduction\<close>

text \<open>The rates of the steps that pass both tests.\<close>

definition passed_rates :: "f64 \<Rightarrow> step_observation list \<Rightarrow> u64 list" where
  "passed_rates baseline obs =
     map (\<lambda>s. min (measured_kbps s) (so_target_kbps s))
       (filter (\<lambda>s. fits_throughput s \<and> rtt_ok baseline s) obs)"

lemma evaluate_loop_sustained:
  "fst (evaluate_loop b obs s r) = foldl max s (passed_rates b obs)"
  by (induction obs arbitrary: s r) (simp_all add: passed_rates_def Let_def)

lemma foldl_max_Max: "foldl max (s :: 'a::linorder) xs = Max (insert s (set xs))"
proof -
  have "foldl max s xs = fold max xs s"
    by (simp add: foldl_conv_fold max.commute)
  also have "\<dots> = Max (set (s # xs))" by (rule Max.set_eq_fold [symmetric])
  finally show ?thesis by simp
qed

lemma evaluate_goodput:
  "me_goodput_mbps (evaluate obs b)
   = f64_of_int (uint (Max (insert 0 (set (passed_rates b obs))))) / Fin 1000"
  using evaluate_loop_sustained [of b obs 0 b]
  by (simp add: evaluate_def split_beta foldl_max_Max)

lemma evaluate_loop_rtt:
  "snd (evaluate_loop b obs s r) = foldl f64_max r (map so_avg_rtt_ms obs)"
  by (induction obs arbitrary: s r) (simp_all add: Let_def)

section \<open>Properties\<close>

text \<open>The measurement is the best step: the goodput a speedtest reports is the largest
  rate (the lesser of measured and target) over the steps that reached 85% of their target
  without doubling the baseline RTT, or zero when none did, and the reported RTT is the
  largest one seen.\<close>

theorem evaluate_best_step:
  "me_goodput_mbps (evaluate obs b)
     = f64_of_int (uint (Max (insert 0 (set (passed_rates b obs))))) / Fin 1000
   \<and> me_rtt_ms (evaluate obs b) = foldl f64_max b (map so_avg_rtt_ms obs)"
  using evaluate_goodput [of obs b] evaluate_loop_rtt [of b obs 0 b]
  by (simp add: evaluate_def split_beta)

lemma evaluated_mode_headroom:
  assumes "\<And>s. s \<in> set obs \<Longrightarrow> uint (so_target_kbps s) < 2 ^ 40"
    and "select_mode (evaluate obs b) caps tr limits \<noteq> safe_fallback"
  shows "\<exists>rate \<in> insert 0 (set (passed_rates b obs)).
    10 * int (mode_cost (select_mode (evaluate obs b) caps tr limits)) \<le> 7 * uint rate"
proof -
  let ?R = "insert 0 (set (passed_rates b obs))"
  let ?m = "Max ?R"
  have mem: "?m \<in> ?R" by (rule Max_in) simp_all
  have "uint r < 2 ^ 40" if r: "r \<in> set (passed_rates b obs)" for r
  proof -
    obtain s where s: "s \<in> set obs" "r = min (measured_kbps s) (so_target_kbps s)"
      using r by (auto simp: passed_rates_def)
    then have "uint r \<le> uint (so_target_kbps s)" by (simp flip: word_le_def)
    with assms(1) [OF s(1)] show ?thesis by simp
  qed
  with mem have "uint ?m < 2 ^ 40" by auto
  moreover have "0 \<le> uint ?m" by simp
  ultimately have "10 * uint (usable_kbps (evaluate obs b)) \<le> 7 * uint ?m"
    using usable_within_headroom [OF _ _ evaluate_goodput, of b obs] by simp
  with selected_cost_usable [OF assms(2)]
  have "10 * int (mode_cost (select_mode (evaluate obs b) caps tr limits)) \<le> 7 * uint ?m"
    by linarith
  with mem show ?thesis by blast
qed

text \<open>From speedtest to mode: a mode selected from a speedtest, unless it is the
  fallback, costs at most 70% of the rate of a step of the test that passed, for ramp
  targets below a terabit.\<close>

theorem speedtest_mode_within_headroom:
  assumes "\<And>s. s \<in> set obs \<Longrightarrow> uint (so_target_kbps s) < 2 ^ 40"
    and "select_mode (evaluate obs b) caps tr limits \<noteq> safe_fallback"
  shows "\<exists>rate \<in> insert 0 (set (passed_rates b obs)).
    10 * int (mode_cost (select_mode (evaluate obs b) caps tr limits)) \<le> 7 * uint rate"
  using assms by (rule evaluated_mode_headroom)

definition step_100 :: step_observation where
  "step_100 = \<lparr> so_target_kbps = 100000, so_received_bytes = 6250000,
     so_duration = from_millis 500, so_avg_rtt_ms = Fin 4 \<rparr>"

lemma as_secs_f64_half: "as_secs_f64 (from_millis 500) = Fin (1 / 2)"
proof -
  have "round_rat (1 / 2) = 1 / 2" by (rule round_rat_exact [of _ 1 "- 1"]) (simp_all add: pow2_def)
  then have "f64_round (1 / 2) = Fin (1 / 2)" using f64_round_small(1) [of "1 / 2"] by simp
  moreover have "f64_round 500000000 = Fin 500000000" "f64_round 0 = Fin 0"
    using f64_round_int [of 500000000] f64_round_int [of 0] by simp_all
  ultimately show ?thesis
    by (simp add: as_secs_f64_def as_secs_def subsec_nanos_def from_millis_def f64_of_int_def
        f64_op_defs)
qed

lemma measured_step_100: "measured_kbps step_100 = 100000"
proof -
  have "f64_round 6250000 = Fin 6250000" "f64_round 50000000 = Fin 50000000"
    "f64_round 50000 = Fin 50000" "f64_round 100000 = Fin 100000"
    using f64_round_int [of 6250000] f64_round_int [of 50000000] f64_round_int [of 50000]
      f64_round_int [of 100000] by simp_all
  then show ?thesis
    by (simp add: measured_kbps_def step_100_def as_secs_f64_half f64_of_int_def f64_op_defs
        f64_as_u64_def)
qed

lemma fits_step_100: "fits_throughput step_100"
proof -
  have r: "0 \<le> round_rat (85 / 100)" "round_rat (85 / 100) \<le> 1" "f64_round (85 / 100) = Fin (round_rat (85 / 100))"
    using f64_round_small [of "85 / 100"] round_rat_mono [of "85 / 100" "1"] round_rat_int [of 1]
    by simp_all
  have i: "f64_round 100000 = Fin 100000" using f64_round_int [of 100000] by simp
  have "f64_round (100000 * round_rat (85 / 100)) \<le> f64_round 100000"
    by (rule f64_round_mono) (use r in simp)
  then show ?thesis
    unfolding fits_throughput_def measured_step_100 using r i
    by (simp add: step_100_def f64_of_int_def times_f64_def)
qed

lemma passed_step_100: "passed_rates (Fin 0) [step_100] = [100000]"
  using fits_step_100 measured_step_100
  by (simp add: passed_rates_def rtt_ok_def zero_f64_def less_eq_f64_def) (simp add: step_100_def)

lemma evaluate_step_100: "usable_kbps (evaluate [step_100] (Fin 0)) = 70000"
proof -
  have "me_goodput_mbps (evaluate [step_100] (Fin 0)) = Fin 100"
    using f64_round_int [of 100000] f64_round_int [of 100]
    by (simp add: evaluate_goodput passed_step_100 f64_of_int_def divide_f64_def)
  then show ?thesis
    using usable_meas_100 by (simp add: usable_kbps_def meas_100_def)
qed

theorem speedtest_mode_within_headroom_witness:
  "\<exists>rate \<in> insert 0 (set (passed_rates (Fin 0) [step_100])).
    10 * int (mode_cost (select_mode (evaluate [step_100] (Fin 0)) modes_720_1080 TcWiFi no_limits))
      \<le> 7 * uint rate"
proof (rule speedtest_mode_within_headroom)
  show "uint (so_target_kbps s) < 2 ^ 40" if "s \<in> set [step_100]" for s
    using that by (simp add: step_100_def)
  have "select_mode (evaluate [step_100] (Fin 0)) modes_720_1080 TcWiFi no_limits
    = select_mode meas_100 modes_720_1080 TcWiFi no_limits"
    by (simp add: select_mode_def evaluate_step_100 usable_meas_100)
  then show "select_mode (evaluate [step_100] (Fin 0)) modes_720_1080 TcWiFi no_limits
      \<noteq> safe_fallback"
    by (simp add: select_720_1080 default_streaming_1080p30_def safe_fallback_def)
qed

text \<open>The default ramp: five steps of half a second, 2.5 s in all, whose targets
  double, and for every step the expected byte count is exactly \<open>target * 500 / 8\<close>.\<close>

theorem default_ramp_budget:
  "total_duration default_ramp = Some (from_millis 2500)
   \<and> map (\<lambda>t. unat (expected_step_bytes t (sp_step_duration default_ramp))) (sp_steps_kbps default_ramp)
     = map (\<lambda>t. unat t * 500 div 8) (sp_steps_kbps default_ramp)"
  by (simp add: total_duration_def default_ramp_def DEFAULT_RAMP_KBPS_def DEFAULT_STEP_MS_def
      duration_mul_def from_millis_def as_secs_def expected_step_bytes_def as_millis_def)

lemma frames_per_step_positive:
  assumes "0 < unat width" "0 < unat height" "unat width < 2 ^ 16" "unat height < 2 ^ 16"
  shows "1 \<le> unat (frames_per_step_for_target t width height ms)"
proof -
  have v: "unat width * unat height < 2 ^ 32"
    using mult_strict_mono [OF assms(3,4)] by simp
  then have a: "unat (ucast width * ucast height :: u64) = unat width * unat height"
    by (subst unat_mult64) simp_all
  have "unat (ucast width * ucast height * 12 :: u64) = unat width * unat height * 12"
    using v by (subst unat_mult64; simp only: a) (simp_all add: mult.commute [of "unat height"])
  then have "(ucast width * ucast height * 12 :: u64) \<noteq> 0"
    using assms(1,2) by (metis mult_eq_0_iff neq0_conv unsigned_0 zero_neq_numeral)
  moreover have "1 \<le> unat (max x (1 :: u64))" for x
    by (simp add: max_def word_le_nat_alt)
  ultimately show ?thesis
    by (simp add: frames_per_step_for_target_def Let_def unat_u32_clamp)
qed

end
