(* ===== verification/Transport_Usb.thy ===== *)
theory Transport_Usb
  imports Transport
begin

text \<open>
  How streams come about (\<open>crates/transport/src/usb/\<close>, \<open>src/wifi/\<close>): the USB conductor
  trait with its polling event source, the in-process loopback conductor, the production
  conductor's event loop, dialling the two ports of a device, and the Wi-Fi server and client.
  What the operating system and the \<open>idevice\<close> crate return (a TCP connect, an accept, a
  listing, a listen stream) are arguments of the definitions.

  The locale \<open>device_events\<close> is the contract of an event source: replaying its events gives
  exactly the devices that are present. Both event sources are instances.
\<close>

section \<open>The conductor's data\<close>

datatype usb_transport_error =
    MuxdUnreachable string
  | DeviceNotFound string
  | ConnectFailed u16 string
  | UsbIo io_error
  | Unsupported
  | Idevice string

datatype connection_type = ConnUsb | ConnNetwork

record usb_device =
  ud_id :: u32
  ud_udid :: string
  ud_connection :: connection_type
  ud_product_id :: "u16 option"

datatype usb_event = Connected usb_device | Lost u32 string

section \<open>Polling\<close>

text \<open>One round of the default \<open>subscribe\<close>: new ids, then missing ids.\<close>

definition poll_events :: "usb_device list \<Rightarrow> usb_device list \<Rightarrow> usb_event list" where
  "poll_events prev now =
     map Connected (filter (\<lambda>d. \<not> (\<exists>p \<in> set prev. ud_id p = ud_id d)) now)
     @ map (\<lambda>p. Lost (ud_id p) (ud_udid p)) (filter (\<lambda>p. \<not> (\<exists>d \<in> set now. ud_id d = ud_id p)) prev)"

fun subscribe_poll ::
    "usb_device list \<Rightarrow> (usb_transport_error + usb_device list) list \<Rightarrow> usb_event list" where
  "subscribe_poll prev [] = []"
| "subscribe_poll prev (Inl e # listings) = subscribe_poll prev listings"
| "subscribe_poll prev (Inr ds # listings) =
     (let now = filter (\<lambda>d. ud_connection d = ConnUsb) ds
      in poll_events prev now @ subscribe_poll now listings)"

section \<open>The production conductor's listener\<close>

text \<open>A device as \<open>usbmuxd\<close> reports it.\<close>

datatype muxd_connection = MuxdUsb | MuxdNetwork | MuxdUnknown

record muxd_device =
  mx_device_id :: u32
  mx_udid :: string
  mx_connection :: muxd_connection

definition map_device :: "muxd_device \<Rightarrow> usb_device" where
  "map_device d =
     \<lparr> ud_id = mx_device_id d, ud_udid = mx_udid d,
       ud_connection = (case mx_connection d of MuxdUsb \<Rightarrow> ConnUsb | MuxdNetwork \<Rightarrow> ConnNetwork
                        | MuxdUnknown \<Rightarrow> ConnNetwork),
       ud_product_id = None \<rparr>"

datatype listen_item = ListenConnected muxd_device | ListenDisconnected u32 | ListenError string

text \<open>The listen loop up to the first stream error; a dropped receiver ends it too, and then
  nobody sees later events.\<close>

fun listen_loop :: "(u32 \<rightharpoonup> string) \<Rightarrow> listen_item list \<Rightarrow> usb_event list" where
  "listen_loop known [] = []"
| "listen_loop known (ListenConnected dev # items) =
     (let mapped = map_device dev
      in if ud_connection mapped = ConnUsb
         then Connected mapped # listen_loop (known(ud_id mapped \<mapsto> ud_udid mapped)) items
         else listen_loop known items)"
| "listen_loop known (ListenDisconnected i # items) =
     Lost i (case known i of Some u \<Rightarrow> u | None \<Rightarrow> []) # listen_loop (known(i := None)) items"
| "listen_loop known (ListenError e # items) = []"

text \<open>\<open>list_devices\<close> of the production conductor, over the answer of \<open>usbmuxd\<close>.\<close>

definition idevice_list ::
    "string + (string + muxd_device list) \<Rightarrow> usb_transport_error + usb_device list" where
  "idevice_list answer =
     (case answer of
        Inl e \<Rightarrow> Inl (MuxdUnreachable e)
      | Inr (Inl e) \<Rightarrow> Inl (Idevice e)
      | Inr (Inr devs) \<Rightarrow> Inr (map map_device devs))"

text \<open>\<open>open_port\<close> of the production conductor, over the connection to \<open>usbmuxd\<close>, the
  connection to the device's port, and the socket it holds, if any.\<close>

definition idevice_open_port ::
    "string + (string + wire option) \<Rightarrow> u16 \<Rightarrow> usb_transport_error + wire" where
  "idevice_open_port answer port =
     (case answer of
        Inl e \<Rightarrow> Inl (MuxdUnreachable e)
      | Inr (Inl e) \<Rightarrow> Inl (ConnectFailed port e)
      | Inr (Inr None) \<Rightarrow> Inl (ConnectFailed port ''idevice returned no socket'')
      | Inr (Inr (Some w)) \<Rightarrow> Inr w)"

section \<open>The loopback conductor\<close>

definition CCP_USB_CONTROL_PORT :: u16 where
  "CCP_USB_CONTROL_PORT = 7000"

definition CCP_USB_MEDIA_PORT :: u16 where
  "CCP_USB_MEDIA_PORT = 7001"

record loopback_device =
  ld_id :: u32
  ld_udid :: string
  ld_control_addr :: socket_addr
  ld_media_addr :: socket_addr

record loopback_conductor =
  lc_devices :: "loopback_device list"
  lc_control_port :: u16
  lc_media_port :: u16

definition loopback_new :: loopback_conductor where
  "loopback_new = \<lparr> lc_devices = [], lc_control_port = CCP_USB_CONTROL_PORT,
     lc_media_port = CCP_USB_MEDIA_PORT \<rparr>"

definition with_ports :: "u16 \<Rightarrow> u16 \<Rightarrow> loopback_conductor \<Rightarrow> loopback_conductor" where
  "with_ports control media lc = lc\<lparr>lc_control_port := control, lc_media_port := media\<rparr>"

definition register :: "loopback_device \<Rightarrow> loopback_conductor \<Rightarrow> loopback_conductor" where
  "register dev lc = lc\<lparr>lc_devices := lc_devices lc @ [dev]\<rparr>"

definition unregister :: "u32 \<Rightarrow> loopback_conductor \<Rightarrow> loopback_conductor" where
  "unregister i lc = lc\<lparr>lc_devices := filter (\<lambda>d. ld_id d \<noteq> i) (lc_devices lc)\<rparr>"

definition loopback_list :: "loopback_conductor \<Rightarrow> usb_transport_error + usb_device list" where
  "loopback_list lc =
     Inr (map (\<lambda>d. \<lparr> ud_id = ld_id d, ud_udid = ld_udid d, ud_connection = ConnUsb,
                     ud_product_id = None \<rparr>) (lc_devices lc))"

definition loopback_snapshot :: "loopback_conductor \<Rightarrow> usb_device list" where
  "loopback_snapshot lc = (case loopback_list lc of Inl e \<Rightarrow> [] | Inr ds \<Rightarrow> ds)"

text \<open>Decimal digits, as \<open>format!\<close> writes an unsigned integer.\<close>

fun show_nat :: "nat \<Rightarrow> string" where
  "show_nat n = (if n < 10 then [char_of (48 + n)] else show_nat (n div 10) @ [char_of (48 + n mod 10)])"

declare show_nat.simps [simp del]

text \<open>A TCP connect under the 2 s timeout: a socket, a refusal with its message, or nothing
  in time.\<close>

datatype connect_result = ConnOk wire | ConnErr string | ConnTimeout

definition loopback_open_port ::
    "(socket_addr \<Rightarrow> connect_result) \<Rightarrow> loopback_conductor \<Rightarrow> u32 \<Rightarrow> u16
     \<Rightarrow> usb_transport_error + wire" where
  "loopback_open_port connect lc device_id port =
     (case find (\<lambda>d. ld_id d = device_id) (lc_devices lc) of
        None \<Rightarrow> Inl (DeviceNotFound (CHR ''#'' # show_nat (unat device_id)))
      | Some dev \<Rightarrow>
          (case (if port = lc_control_port lc then Some (ld_control_addr dev)
                 else if port = lc_media_port lc then Some (ld_media_addr dev) else None) of
             None \<Rightarrow> Inl (ConnectFailed port ''loopback conductor only routes the two CCP ports'')
           | Some target \<Rightarrow>
               (case connect target of
                  ConnTimeout \<Rightarrow> Inl (ConnectFailed port ''timeout'')
                | ConnErr e \<Rightarrow> Inl (ConnectFailed port e)
                | ConnOk w \<Rightarrow> Inr w)))"

section \<open>Dialling a device\<close>

definition unspecified_addr :: socket_addr where
  "unspecified_addr = ([0, 0, 0, 0], 0)"

text \<open>\<open>open_pair\<close> over a conductor's \<open>open_port\<close>.\<close>

definition open_pair ::
    "(u32 \<Rightarrow> u16 \<Rightarrow> usb_transport_error + wire) \<Rightarrow> u32 \<Rightarrow> string
     \<Rightarrow> usb_transport_error + control_stream \<times> media_stream" where
  "open_pair open_port device_id udid =
     (case open_port device_id CCP_USB_CONTROL_PORT of
        Inl e \<Rightarrow> Inl e
      | Inr cw \<Rightarrow>
          (case open_port device_id CCP_USB_MEDIA_PORT of
             Inl e \<Rightarrow> Inl e
           | Inr mw \<Rightarrow>
               let peer = \<lparr> pe_addr = unspecified_addr, pe_source = SrcUsb udid \<rparr>
               in Inr (control_from_halves peer cw, media_from_halves peer mw)))"

section \<open>Wi-Fi\<close>

text \<open>A connected TCP socket: its bytes and its peer's address.\<close>

record tcp_socket =
  sk_wire :: wire
  sk_peer :: socket_addr

definition wifi_peer :: "socket_addr \<Rightarrow> peer_info" where
  "wifi_peer addr = \<lparr> pe_addr = addr, pe_source = SrcWifi \<rparr>"

definition wifi_connect ::
    "(socket_addr \<Rightarrow> io_error + tcp_socket) \<Rightarrow> socket_addr \<Rightarrow> socket_addr
     \<Rightarrow> transport_error + control_stream \<times> media_stream" where
  "wifi_connect connect control media =
     (case connect control of
        Inl e \<Rightarrow> Inl (Io e)
      | Inr cs \<Rightarrow>
          (case connect media of
             Inl e \<Rightarrow> Inl (Io e)
           | Inr ms \<Rightarrow>
               Inr (control_from_halves (wifi_peer (sk_peer cs)) (sk_wire cs),
                    media_from_halves (wifi_peer (sk_peer ms)) (sk_wire ms))))"

datatype wifi_server_event = WsControl control_stream | WsMedia media_stream

record bound_ports =
  bp_control :: socket_addr
  bp_media :: socket_addr

text \<open>\<open>bind\<close> over the operating system's bind, which returns the local address.\<close>

definition bind_ports ::
    "(socket_addr \<Rightarrow> io_error + socket_addr) \<Rightarrow> socket_addr \<Rightarrow> socket_addr
     \<Rightarrow> transport_error + bound_ports" where
  "bind_ports os_bind control_addr media_addr =
     (case os_bind control_addr of
        Inl e \<Rightarrow> Inl (Io e)
      | Inr c \<Rightarrow>
          (case os_bind media_addr of
             Inl e \<Rightarrow> Inl (Io e)
           | Inr m \<Rightarrow> Inr \<lparr> bp_control = c, bp_media = m \<rparr>))"

text \<open>The two accept loops, over the results of \<open>accept\<close>: a failed accept is skipped.\<close>

fun control_accepts :: "(io_error + tcp_socket) list \<Rightarrow> wifi_server_event list" where
  "control_accepts [] = []"
| "control_accepts (Inl e # rs) = control_accepts rs"
| "control_accepts (Inr s # rs) =
     WsControl (control_from_halves (wifi_peer (sk_peer s)) (sk_wire s)) # control_accepts rs"

fun media_accepts :: "(io_error + tcp_socket) list \<Rightarrow> wifi_server_event list" where
  "media_accepts [] = []"
| "media_accepts (Inl e # rs) = media_accepts rs"
| "media_accepts (Inr s # rs) =
     WsMedia (media_from_halves (wifi_peer (sk_peer s)) (sk_wire s)) # media_accepts rs"

section \<open>What an event source promises\<close>

text \<open>The ids a consumer that follows the events believes to be present.\<close>

fun apply_event :: "usb_event \<Rightarrow> u32 set \<Rightarrow> u32 set" where
  "apply_event (Connected d) ids = insert (ud_id d) ids"
| "apply_event (Lost i u) ids = ids - {i}"

definition replay :: "usb_event list \<Rightarrow> u32 set \<Rightarrow> u32 set" where
  "replay evs ids = fold apply_event evs ids"

text \<open>\<open>events xs\<close> are the events an input \<open>xs\<close> causes, \<open>present xs\<close> the ids it leaves
  plugged in, \<open>usb_only\<close> says that announced devices are on the cable.\<close>

locale device_events =
  fixes events :: "'i list \<Rightarrow> usb_event list" and present :: "'i list \<Rightarrow> u32 set"
  assumes replay_events: "replay (events xs) {} = present xs"
    and announced_usb: "Connected d \<in> set (events xs) \<Longrightarrow> ud_connection d = ConnUsb"
begin

lemma empty_bus: "present xs = {} \<Longrightarrow> events xs \<noteq> [] \<Longrightarrow> \<exists>i u. last (events xs) = Lost i u"
proof (cases "events xs" rule: rev_cases)
  case (snoc evs e)
  assume "present xs = {}"
  then have "apply_event e (replay evs {}) = {}"
    using replay_events [of xs] by (simp add: snoc replay_def)
  then show ?thesis by (cases e) (simp_all add: snoc)
qed simp

end

lemma replay_append: "replay (a @ b) ids = replay b (replay a ids)"
  by (simp add: replay_def)

lemma replay_Connected: "replay (map Connected ds) ids = ids \<union> ud_id ` set ds"
  by (induction ds arbitrary: ids) (auto simp: replay_def)

lemma replay_Lost: "replay (map (\<lambda>p. Lost (ud_id p) (ud_udid p)) ds) ids = ids - ud_id ` set ds"
  by (induction ds arbitrary: ids) (auto simp: replay_def)

lemma replay_poll_events: "replay (poll_events prev now) (ud_id ` set prev) = ud_id ` set now"
  unfolding poll_events_def replay_append replay_Connected replay_Lost
  by (auto simp: image_iff) metis+

text \<open>The devices of the last listing that succeeded.\<close>

fun last_listing :: "usb_device list \<Rightarrow> (usb_transport_error + usb_device list) list \<Rightarrow> usb_device list" where
  "last_listing prev [] = prev"
| "last_listing prev (Inl e # ls) = last_listing prev ls"
| "last_listing prev (Inr ds # ls) = last_listing (filter (\<lambda>d. ud_connection d = ConnUsb) ds) ls"

lemma replay_subscribe_poll:
  "replay (subscribe_poll prev ls) (ud_id ` set prev) = ud_id ` set (last_listing prev ls)"
  by (induction prev ls rule: subscribe_poll.induct)
    (simp_all add: replay_append replay_poll_events Let_def, simp add: replay_def)

lemma subscribe_poll_usb:
  "Connected d \<in> set (subscribe_poll prev ls) \<Longrightarrow> ud_connection d = ConnUsb"
  by (induction prev ls rule: subscribe_poll.induct) (auto simp: poll_events_def Let_def)

interpretation polling: device_events "subscribe_poll []" "\<lambda>ls. ud_id ` set (last_listing [] ls)"
  using replay_subscribe_poll [of "[]"] subscribe_poll_usb by unfold_locales auto

text \<open>The ids a listen stream leaves plugged in, up to its first error.\<close>

fun listened :: "u32 set \<Rightarrow> listen_item list \<Rightarrow> u32 set" where
  "listened ids [] = ids"
| "listened ids (ListenConnected d # items) =
     listened (if mx_connection d = MuxdUsb then insert (mx_device_id d) ids else ids) items"
| "listened ids (ListenDisconnected i # items) = listened (ids - {i}) items"
| "listened ids (ListenError e # items) = ids"

lemma map_device_usb: "ud_connection (map_device d) = ConnUsb \<longleftrightarrow> mx_connection d = MuxdUsb"
  by (simp add: map_device_def split: muxd_connection.splits)

lemma replay_listen_loop: "replay (listen_loop known items) ids = listened ids items"
  by (induction known items arbitrary: ids rule: listen_loop.induct)
    (simp_all add: replay_def Let_def map_device_usb, simp add: map_device_def)

lemma listen_loop_usb: "Connected d \<in> set (listen_loop known items) \<Longrightarrow> ud_connection d = ConnUsb"
  by (induction known items rule: listen_loop.induct) (auto simp: Let_def split: if_splits)

interpretation listening: device_events "listen_loop Map.empty" "listened {}"
  using replay_listen_loop listen_loop_usb by unfold_locales auto

section \<open>Properties\<close>

text \<open>C38. The polling event source is exact: after any sequence of listings, failed ones
  included, replaying the events it emitted gives exactly the ids of the USB devices of the
  last listing that succeeded, and no network device is ever announced.\<close>

theorem polling_events_track_devices:
  "replay (subscribe_poll [] ls) {} = ud_id ` set (last_listing [] ls)
   \<and> list_all (\<lambda>ev. case ev of Connected d \<Rightarrow> ud_connection d = ConnUsb | Lost i u \<Rightarrow> True)
       (subscribe_poll [] ls)"
  using polling.replay_events [of ls] polling.announced_usb [of _ ls]
  by (auto simp: list_all_iff split: usb_event.split)

text \<open>The production event source is exact: whatever the listen stream delivers, replaying
  the events emitted gives exactly the USB devices attached and not detached since, up to the
  first stream error, and no network device is announced.\<close>

theorem listening_events_track_devices:
  "replay (listen_loop Map.empty items) {} = listened {} items
   \<and> list_all (\<lambda>ev. case ev of Connected d \<Rightarrow> ud_connection d = ConnUsb | Lost i u \<Rightarrow> True)
       (listen_loop Map.empty items)"
  using listening.replay_events [of items] listening.announced_usb [of _ items]
  by (auto simp: list_all_iff split: usb_event.split)

lemma find_filter_neq: "find (\<lambda>d. f d = i) (filter (\<lambda>d. f d \<noteq> i) xs) = None"
  by (simp add: find_None_iff)

text \<open>Dialling through the loopback conductor: for the first registered device with an id,
  dialling reaches that device's two addresses, in the roles of control and media, and the
  streams are labelled with the device's udid; an unregistered id, or a failed connect, gives
  an error and no stream.\<close>

theorem loopback_dial:
  assumes "lc_control_port lc = CCP_USB_CONTROL_PORT" and "lc_media_port lc = CCP_USB_MEDIA_PORT"
  shows "open_pair (loopback_open_port connect lc) i udid =
    (case find (\<lambda>d. ld_id d = i) (lc_devices lc) of
       None \<Rightarrow> Inl (DeviceNotFound (CHR ''#'' # show_nat (unat i)))
     | Some dev \<Rightarrow>
         (case (connect (ld_control_addr dev), connect (ld_media_addr dev)) of
            (ConnOk cw, ConnOk mw) \<Rightarrow>
              Inr (\<lparr> cst_peer = \<lparr> pe_addr = unspecified_addr, pe_source = SrcUsb udid \<rparr>, cst_wire = cw \<rparr>,
                   \<lparr> ms_peer = \<lparr> pe_addr = unspecified_addr, pe_source = SrcUsb udid \<rparr>, ms_wire = mw \<rparr>)
          | (ConnOk cw, ConnErr e) \<Rightarrow> Inl (ConnectFailed 7001 e)
          | (ConnOk cw, ConnTimeout) \<Rightarrow> Inl (ConnectFailed 7001 ''timeout'')
          | (ConnErr e, _) \<Rightarrow> Inl (ConnectFailed 7000 e)
          | (ConnTimeout, _) \<Rightarrow> Inl (ConnectFailed 7000 ''timeout'')))"
  using assms
  by (auto simp: open_pair_def loopback_open_port_def CCP_USB_CONTROL_PORT_def CCP_USB_MEDIA_PORT_def
      control_from_halves_def media_from_halves_def Let_def
      split: option.split connect_result.split)

theorem loopback_dial_witness:
  "open_pair (loopback_open_port (\<lambda>a. ConnTimeout) (unregister 5 loopback_new)) 5 ''u''
   = Inl (DeviceNotFound (CHR ''#'' # show_nat 5))"
  using loopback_dial [of "unregister 5 loopback_new" "\<lambda>a. ConnTimeout" 5 "''u''"]
  by (simp add: unregister_def loopback_new_def)

end
