(* ===== verification/Adaptive_Ladder.thy ===== *)
theory Adaptive_Ladder
  imports Adaptive_Select
begin

text \<open>
  Live adaptation (\<open>crates/adaptive/src/adaptation.rs\<close>): the state machine that turns
  telemetry samples into step-down and step-up actions. The theorems: a step-down never
  raises resolution or frame rate nor returns to raw video, the step-down ladder ends from
  every mode, actions respect the cooldowns on every trace of samples, a step-up needs four
  samples without congestion since the last action, and the 32-bit bitrate arithmetic never
  wraps from the bitrates the program starts with.
\<close>

section \<open>The code\<close>

definition STABLE_SAMPLES_BEFORE_STEPUP :: u32 where
  "STABLE_SAMPLES_BEFORE_STEPUP = 4"

definition RTT_CONGESTION_FACTOR :: f64 where
  "RTT_CONGESTION_FACTOR = Fin 2"

definition STEPUP_COOLDOWN :: duration where
  "STEPUP_COOLDOWN = from_secs 5"

definition STEPDOWN_COOLDOWN :: duration where
  "STEPDOWN_COOLDOWN = from_secs 2"

datatype action = ActNone | StepUp mode | StepDown mode

record adaptation_state =
  as_current :: mode
  as_consecutive_stable :: u32
  as_base_rtt_ms :: f64
  as_last_drop_count :: u64
  as_last_action_at :: "instant option"
  as_start_at :: instant

definition new_at :: "mode \<Rightarrow> instant \<Rightarrow> adaptation_state" where
  "new_at initial start_at =
     \<lparr> as_current = initial, as_consecutive_stable = 0, as_base_rtt_ms = Fin 0,
       as_last_drop_count = 0, as_last_action_at = None, as_start_at = start_at \<rparr>"

definition encoded_target :: "mode \<Rightarrow> u32" where
  "encoded_target m =
     u32_clamp
       (case md_codec m of
          CnHevc \<Rightarrow> hevc_target_kbps (ucast (md_width m)) (ucast (md_height m)) (ucast (md_fps m))
        | CnNone \<Rightarrow> hevc_target_kbps (ucast (md_width m)) (ucast (md_height m)) (ucast (md_fps m))
        | CnH264 \<Rightarrow> h264_target_kbps (ucast (md_width m)) (ucast (md_height m)) (ucast (md_fps m)))"

text \<open>\<open>if next.format == Encoded { next.bitrate_kbps = encoded_target(&next) }\<close>.\<close>

definition retarget :: "mode \<Rightarrow> mode" where
  "retarget m =
     (if md_format m = FmtEncoded then m\<lparr>md_bitrate_kbps := encoded_target m\<rparr> else m)"

definition next_lower :: "mode \<Rightarrow> mode option" where
  "next_lower current =
     (if 30 < md_fps current then Some (retarget (current\<lparr>md_fps := 30\<rparr>))
      else if md_format current = FmtEncoded \<and> 1000 < md_bitrate_kbps current
      then Some (current\<lparr>md_bitrate_kbps := md_bitrate_kbps current * 3 div 4\<rparr>)
      else if md_format current = FmtRaw
      then Some (let m = current\<lparr>md_format := FmtEncoded, md_codec := CnHevc\<rparr>
                 in m\<lparr>md_bitrate_kbps := encoded_target m\<rparr>)
      else if (md_width current, md_height current) = (3840, 2160)
      then Some (retarget (current\<lparr>md_width := 1920, md_height := 1080\<rparr>))
      else if (md_width current, md_height current) = (1920, 1080)
      then Some (retarget (current\<lparr>md_width := 1280, md_height := 720\<rparr>))
      else None)"

definition next_higher :: "mode \<Rightarrow> mode option" where
  "next_higher current =
     (if md_fps current = 30 then Some (retarget (current\<lparr>md_fps := 60\<rparr>))
      else if (md_width current, md_height current) = (1280, 720)
      then Some (retarget (current\<lparr>md_width := 1920, md_height := 1080\<rparr>))
      else if (md_width current, md_height current) = (1920, 1080)
      then Some (retarget (current\<lparr>md_width := 3840, md_height := 2160\<rparr>))
      else None)"

definition cooldown_elapsed :: "adaptation_state \<Rightarrow> instant \<Rightarrow> duration \<Rightarrow> bool" where
  "cooldown_elapsed st now dur \<longleftrightarrow>
     (let reference = (case as_last_action_at st of Some t \<Rightarrow> t | None \<Rightarrow> as_start_at st)
      in dur \<le> duration_since now reference)"

definition is_congested :: "adaptation_state \<Rightarrow> telemetry \<Rightarrow> f64 \<Rightarrow> bool" where
  "is_congested st telemetry rtt_ms \<longleftrightarrow>
     (if 0 < tm_queue_depth telemetry then True
      else if as_last_drop_count st < tm_drop_count telemetry then True
      else if 0 < as_base_rtt_ms st \<and> as_base_rtt_ms st * RTT_CONGESTION_FACTOR < rtt_ms then True
      else False)"

definition saturating_inc32 :: "u32 \<Rightarrow> u32" where
  "saturating_inc32 x = (if x = - 1 then x else x + 1)"

text \<open>The exponential average of the RTT with \<open>alpha = 0.2\<close>.\<close>

definition update_base_rtt :: "f64 \<Rightarrow> f64 \<Rightarrow> f64" where
  "update_base_rtt base rtt_ms =
     (let alpha = f64_lit (2 / 10)
      in if base = 0 then rtt_ms else (Fin 1 - alpha) * base + alpha * rtt_ms)"

definition observe_congested ::
    "adaptation_state \<Rightarrow> telemetry \<Rightarrow> instant \<Rightarrow> action \<times> adaptation_state" where
  "observe_congested st telemetry now =
     (if \<not> cooldown_elapsed st now STEPDOWN_COOLDOWN then (ActNone, st)
      else
        let st1 = st\<lparr>as_consecutive_stable := 0, as_last_drop_count := tm_drop_count telemetry\<rparr>
        in case next_lower (as_current st1) of
             Some nxt \<Rightarrow> (StepDown nxt, st1\<lparr>as_last_action_at := Some now, as_current := nxt\<rparr>)
           | None \<Rightarrow> (ActNone, st1))"

definition observe_stable ::
    "adaptation_state \<Rightarrow> telemetry \<Rightarrow> f64 \<Rightarrow> instant \<Rightarrow> action \<times> adaptation_state" where
  "observe_stable st telemetry rtt_ms now =
     (let st1 = st\<lparr>as_base_rtt_ms := update_base_rtt (as_base_rtt_ms st) rtt_ms,
                   as_last_drop_count := tm_drop_count telemetry,
                   as_consecutive_stable := saturating_inc32 (as_consecutive_stable st)\<rparr>
      in if STABLE_SAMPLES_BEFORE_STEPUP \<le> as_consecutive_stable st1
            \<and> cooldown_elapsed st1 now STEPUP_COOLDOWN
         then (case next_higher (as_current st1) of
                 Some nxt \<Rightarrow> (StepUp nxt, st1\<lparr>as_consecutive_stable := 0,
                                as_last_action_at := Some now, as_current := nxt\<rparr>)
               | None \<Rightarrow> (ActNone, st1))
         else (ActNone, st1))"

definition observe ::
    "adaptation_state \<Rightarrow> telemetry \<Rightarrow> f64 \<Rightarrow> instant \<Rightarrow> action \<times> adaptation_state" where
  "observe st telemetry rtt_ms now =
     (if is_congested st telemetry rtt_ms then observe_congested st telemetry now
      else observe_stable st telemetry rtt_ms now)"

section \<open>Traces of samples\<close>

type_synonym sample = "telemetry \<times> f64 \<times> instant"

text \<open>The actions of a run with the time of the sample that caused each, and the final state.\<close>

fun run_observe :: "adaptation_state \<Rightarrow> sample list \<Rightarrow> (instant \<times> action) list \<times> adaptation_state" where
  "run_observe st [] = ([], st)"
| "run_observe st ((tm, rtt, now) # ss) =
     (let (a, st1) = observe st tm rtt now; (as, st2) = run_observe st1 ss
      in (if a = ActNone then as else (now, a) # as, st2))"

definition reference_at :: "adaptation_state \<Rightarrow> instant" where
  "reference_at st = (case as_last_action_at st of Some t \<Rightarrow> t | None \<Rightarrow> as_start_at st)"

fun cooldown_of :: "action \<Rightarrow> duration" where
  "cooldown_of ActNone = 0"
| "cooldown_of (StepUp m) = STEPUP_COOLDOWN"
| "cooldown_of (StepDown m) = STEPDOWN_COOLDOWN"

definition spaced :: "instant \<times> action \<Rightarrow> instant \<times> action \<Rightarrow> bool" where
  "spaced a b \<longleftrightarrow> fst a + cooldown_of (snd b) \<le> fst b"

text \<open>The step-down ladder under lasting congestion: the modes it goes through.\<close>

fun ladder_measure :: "mode \<Rightarrow> nat \<times> nat \<times> nat \<times> nat" where
  "ladder_measure m =
     (if md_format m = FmtRaw then 1 else 0,
      unat (md_width m) * unat (md_height m),
      if 30 < md_fps m then 1 else 0,
      unat (md_bitrate_kbps m))"

text \<open>Samples that all report a queue and come at least one step-down cooldown apart.\<close>

fun congested_samples :: "instant \<Rightarrow> sample list \<Rightarrow> bool" where
  "congested_samples t [] \<longleftrightarrow> True"
| "congested_samples t ((tm, rtt, now) # ss) \<longleftrightarrow>
     0 < tm_queue_depth tm \<and> t + STEPDOWN_COOLDOWN \<le> now \<and> congested_samples now ss"

section \<open>Single steps\<close>

lemma new_at_fields [simp]:
  "as_current (new_at m t) = m" "as_consecutive_stable (new_at m t) = 0"
  by (simp_all add: new_at_def)

lemmas retarget_simps [simp] = retarget_def

lemma next_lower_fields:
  assumes "next_lower m = Some n"
  shows "unat (md_width n) * unat (md_height n) \<le> unat (md_width m) * unat (md_height m)"
    and "md_fps n \<le> md_fps m"
    and "md_format m = FmtEncoded \<Longrightarrow> md_format n = FmtEncoded"
    and "md_pixel_format n = md_pixel_format m" and "md_full_range n = md_full_range m"
  using assms by (auto simp: next_lower_def Let_def split: if_splits)

lemma bitrate_step_down: "1000 < b \<Longrightarrow> unat ((b :: u32) * 3 div 4) < unat b"
proof -
  assume "1000 < b"
  then have "0 < unat b" by (simp add: word_less_nat_alt)
  moreover have "unat (b * 3) \<le> unat b * 3" by (simp add: unat_word_ariths)
  ultimately show ?thesis by (simp add: unat_div)
qed

lemma next_lower_measure:
  "next_lower m = Some n \<Longrightarrow>
   (ladder_measure n, ladder_measure m) \<in> less_than <*lex*> less_than <*lex*> less_than <*lex*> less_than"
  by (cases "md_format m")
    (auto simp: next_lower_def Let_def bitrate_step_down split: if_splits)

lemma next_lower_None_iff:
  "next_lower m = None \<longleftrightarrow>
   md_format m = FmtEncoded \<and> md_fps m \<le> 30 \<and> md_bitrate_kbps m \<le> 1000
   \<and> (md_width m, md_height m) \<notin> {(3840, 2160), (1920, 1080)}"
  by (cases "md_format m") (auto simp: next_lower_def not_less)

lemma next_higher_fields:
  assumes "next_higher m = Some n"
  shows "md_format n = md_format m" and "md_codec n = md_codec m"
    and "rank m < rank n"
  using assms by (auto simp: next_higher_def rank_def split: if_splits)

section \<open>The ladder\<close>

function ladder :: "mode \<Rightarrow> mode list" where
  "ladder m = (case next_lower m of None \<Rightarrow> [] | Some n \<Rightarrow> n # ladder n)"
  by auto
termination
  by (relation "inv_image (less_than <*lex*> less_than <*lex*> less_than <*lex*> less_than)
        ladder_measure") (auto simp del: ladder_measure.simps intro: next_lower_measure)

declare ladder.simps [simp del]

lemma ladder_None [simp]: "next_lower m = None \<Longrightarrow> ladder m = []"
  by (subst ladder.simps) simp

lemma ladder_Some: "next_lower m = Some n \<Longrightarrow> ladder m = n # ladder n"
  by (subst ladder.simps) simp

lemma ladder_last: "next_lower (last (m # ladder m)) = None"
  by (induction m rule: ladder.induct) (subst ladder.simps, auto split: option.split)

lemma ladder_all:
  "n \<in> set (ladder m) \<Longrightarrow>
   unat (md_width n) * unat (md_height n) \<le> unat (md_width m) * unat (md_height m)
   \<and> md_fps n \<le> md_fps m"
proof (induction m rule: ladder.induct)
  case (1 m)
  show ?case
  proof (cases "next_lower m")
    case None
    with 1(2) show ?thesis by simp
  next
    case (Some k)
    from 1(2) consider "n = k" | "n \<in> set (ladder k)" by (auto simp: ladder_Some [OF Some])
    then show ?thesis
    proof cases
      case 1
      then show ?thesis using next_lower_fields [OF Some] by simp
    next
      case 2
      with 1(1) [OF Some] next_lower_fields [OF Some] show ?thesis
        by (meson order_trans)
    qed
  qed
qed

section \<open>What one sample does\<close>

lemma cooldown_elapsed_iff:
  "cooldown_elapsed st now dur \<longleftrightarrow> dur = 0 \<or> reference_at st + dur \<le> now"
  by (auto simp: cooldown_elapsed_def reference_at_def duration_since_def Let_def)

lemma cooldown_nonzero [simp]: "STEPUP_COOLDOWN \<noteq> 0" "STEPDOWN_COOLDOWN \<noteq> 0"
  by (simp_all add: STEPUP_COOLDOWN_def STEPDOWN_COOLDOWN_def from_secs_def)

lemmas observe_defs = observe_def observe_congested_def observe_stable_def Let_def

lemma observe_StepDown:
  assumes "observe st tm rtt now = (StepDown n, st')"
  shows "next_lower (as_current st) = Some n" and "as_current st' = n"
    and "reference_at st' = now" and "reference_at st + STEPDOWN_COOLDOWN \<le> now"
    and "is_congested st tm rtt" and "as_consecutive_stable st' = 0"
  using assms
  by (auto simp: observe_defs cooldown_elapsed_iff reference_at_def split: if_splits option.splits)

lemma observe_StepUp:
  assumes "observe st tm rtt now = (StepUp n, st')"
  shows "next_higher (as_current st) = Some n" and "as_current st' = n"
    and "reference_at st' = now" and "reference_at st + STEPUP_COOLDOWN \<le> now"
    and "\<not> is_congested st tm rtt" and "as_consecutive_stable st' = 0"
    and "4 \<le> saturating_inc32 (as_consecutive_stable st)"
  using assms
  by (auto simp: observe_defs cooldown_elapsed_iff reference_at_def
        STABLE_SAMPLES_BEFORE_STEPUP_def split: if_splits option.splits)

lemma observe_ActNone:
  assumes "observe st tm rtt now = (ActNone, st')"
  shows "as_current st' = as_current st" and "reference_at st' = reference_at st"
  using assms
  by (auto simp: observe_defs reference_at_def split: if_splits option.splits)

lemma observe_reference:
  assumes "observe st tm rtt now = (a, st')" and "a \<noteq> ActNone"
  shows "reference_at st + cooldown_of a \<le> now" and "reference_at st' = now"
  using assms observe_StepDown [of st tm rtt now _ st'] observe_StepUp [of st tm rtt now _ st']
  by (cases a; auto)+

lemma observe_stable_count:
  assumes "observe st tm rtt now = (a, st')"
  shows "unat (as_consecutive_stable st') \<le> Suc (unat (as_consecutive_stable st))"
proof -
  have inc: "unat (saturating_inc32 x) \<le> Suc (unat x)" for x
    by (auto simp: saturating_inc32_def unat_word_ariths)
  show ?thesis
    using assms inc [of "as_consecutive_stable st"]
    by (auto simp: observe_defs split: if_splits option.splits)
qed

section \<open>Traces\<close>

lemma run_observe_spaced:
  "sorted_wrt spaced (fst (run_observe st ss))
   \<and> (\<forall>a \<in> set (fst (run_observe st ss)). reference_at st + cooldown_of (snd a) \<le> fst a
        \<and> reference_at st \<le> fst a)"
proof (induction ss arbitrary: st)
  case Nil
  then show ?case by simp
next
  case (Cons s ss)
  obtain tm rtt now where s: "s = (tm, rtt, now)" by (cases s)
  obtain a st1 where o: "observe st tm rtt now = (a, st1)" by fastforce
  note IH = Cons.IH [of st1]
  show ?case
  proof (cases "a = ActNone")
    case True
    then show ?thesis
      using IH observe_ActNone(2) [of st tm rtt now st1] o
      by (auto simp: s split_beta)
  next
    case False
    from observe_reference [OF o False] have "reference_at st \<le> now" by linarith
    moreover from this have "reference_at st + cooldown_of (snd b) \<le> fst b \<and> reference_at st \<le> fst b"
      if "b \<in> set (fst (run_observe st1 ss))" for b
      using IH that observe_reference(2) [OF o False] by (metis add_le_cancel_right order_trans)
    ultimately show ?thesis
      using observe_reference [OF o False] IH
      by (simp add: s o False spaced_def split_beta)
  qed
qed

lemma run_observe_stable_count:
  "unat (as_consecutive_stable (snd (run_observe st ss)))
   \<le> unat (as_consecutive_stable st) + length ss"
proof (induction ss arbitrary: st)
  case Nil
  then show ?case by simp
next
  case (Cons s ss)
  obtain tm rtt now where s: "s = (tm, rtt, now)" by (cases s)
  obtain a st1 where o: "observe st tm rtt now = (a, st1)" by fastforce
  from Cons.IH [of st1] observe_stable_count [OF o] show ?case
    by (simp add: s o split_beta)
qed

lemma observe_queue:
  assumes "0 < tm_queue_depth tm" and "reference_at st + STEPDOWN_COOLDOWN \<le> now"
  shows "case next_lower (as_current st) of
           Some n \<Rightarrow> \<exists>st'. observe st tm rtt now = (StepDown n, st') \<and> as_current st' = n
                       \<and> reference_at st' = now
         | None \<Rightarrow> \<exists>st'. observe st tm rtt now = (ActNone, st') \<and> as_current st' = as_current st
                       \<and> reference_at st' = reference_at st"
  using assms
  by (auto simp: observe_defs is_congested_def cooldown_elapsed_iff reference_at_def
        split: option.splits)

lemma run_observe_bottom:
  assumes "congested_samples t ss" and "reference_at st \<le> t" and "next_lower (as_current st) = None"
  shows "fst (run_observe st ss) = []"
  using assms
proof (induction ss arbitrary: st t)
  case (Cons s ss)
  obtain tm rtt now where s: "s = (tm, rtt, now)" by (cases s)
  from Cons.prems have q: "0 < tm_queue_depth tm" "reference_at st + STEPDOWN_COOLDOWN \<le> now"
    and rest: "congested_samples now ss" "t \<le> now"
    by (auto simp: s)
  from observe_queue [OF q, of rtt] Cons.prems(3) obtain st' where
    o: "observe st tm rtt now = (ActNone, st')" "as_current st' = as_current st"
    "reference_at st' = reference_at st" by auto
  with Cons.IH [OF rest(1), of st'] Cons.prems rest(2) show ?case
    by (simp add: s split_beta)
qed simp

lemma run_observe_ladder:
  assumes "congested_samples (reference_at st) ss"
  shows "map snd (fst (run_observe st ss)) = map StepDown (take (length ss) (ladder (as_current st)))"
  using assms
proof (induction ss arbitrary: st)
  case (Cons s ss)
  obtain tm rtt now where s: "s = (tm, rtt, now)" by (cases s)
  from Cons.prems have q: "0 < tm_queue_depth tm" "reference_at st + STEPDOWN_COOLDOWN \<le> now"
    and rest: "congested_samples now ss"
    by (auto simp: s)
  show ?case
  proof (cases "next_lower (as_current st)")
    case None
    then show ?thesis
      using run_observe_bottom [OF Cons.prems] by simp
  next
    case (Some n)
    with observe_queue [OF q, of rtt] obtain st' where
      o: "observe st tm rtt now = (StepDown n, st')" "as_current st' = n" "reference_at st' = now"
      by auto
    with Cons.IH [of st'] rest show ?thesis
      by (simp add: s ladder_Some [OF Some] split_beta)
  qed
qed simp

section \<open>Bitrate bounds\<close>

text \<open>The largest bitrate for which \<open>bitrate * 3\<close> still fits 32 bits.\<close>

definition bitrate_ok :: "mode \<Rightarrow> bool" where
  "bitrate_ok m \<longleftrightarrow> md_format m = FmtEncoded \<longrightarrow> unat (md_bitrate_kbps m) \<le> 1431655765"

lemma encoded_target_le:
  assumes "unat (md_width m) * unat (md_height m) * unat (md_fps m) \<le> 2 ^ 40"
  shows "unat (encoded_target m) \<le> 1431655765"
proof -
  have "hevc_nat (unat (md_width m)) (unat (md_height m)) (unat (md_fps m)) \<le> 429496729"
    using assms div_le_mono [OF assms, of 2560] by (simp add: hevc_nat_def)
  then show ?thesis
    by (cases "md_codec m")
      (auto simp: encoded_target_def unat_u32_clamp unat_hevc_target unat_h264_target)
qed

lemma volume_60: "f \<le> 60 \<Longrightarrow> unat (w :: u16) * unat (h :: u16) * f \<le> 2 ^ 40"
  using mult_mono [OF area_le [of w h], of f 60] by simp

lemma volume_4k: "a \<le> 3840 * 2160 \<Longrightarrow> a * unat (f :: u16) \<le> 2 ^ 40"
  using mult_mono [of a "3840 * 2160" "unat f" 65535] u16_le [of f] by simp

lemma retarget_ok:
  "unat (md_width m) * unat (md_height m) * unat (md_fps m) \<le> 2 ^ 40 \<Longrightarrow> bitrate_ok (retarget m)"
  using encoded_target_le [of m] by (auto simp: bitrate_ok_def encoded_target_def)

lemma bitrate_mul3: "bitrate_ok m \<Longrightarrow> md_format m = FmtEncoded \<Longrightarrow>
    unat (md_bitrate_kbps m * 3) = unat (md_bitrate_kbps m) * 3"
  by (simp add: bitrate_ok_def unat_word_ariths)

lemma next_lower_ok:
  assumes "next_lower m = Some n" and "bitrate_ok m"
  shows "bitrate_ok n"
proof -
  have low: "unat (md_fps m) \<le> 60" if "\<not> 30 < md_fps m"
    using that by (simp add: word_less_nat_alt)
  have raw: "bitrate_ok (retarget (m\<lparr>md_format := FmtEncoded, md_codec := CnHevc\<rparr>))"
    if "\<not> 30 < md_fps m"
    by (rule retarget_ok) (use volume_60 low that in simp)
  have mul: "unat (md_bitrate_kbps m * 3 div 4) \<le> 1431655765" if "md_format m = FmtEncoded"
    using assms(2) that by (simp add: unat_div bitrate_mul3 bitrate_ok_def)
  have down: "bitrate_ok (retarget (m\<lparr>md_fps := 30\<rparr>))"
    by (rule retarget_ok) (use volume_60 [of 30 "md_width m" "md_height m"] in simp)
  have res: "bitrate_ok (retarget (m\<lparr>md_width := w, md_height := h\<rparr>))" if "\<not> 30 < md_fps m" for w h
    by (rule retarget_ok) (use volume_60 low that in simp)
  show ?thesis
    using assms raw mul down res unfolding next_lower_def Let_def
    by (auto simp: bitrate_ok_def simp del: retarget_simps split: if_splits) (simp_all split: if_splits)
qed

lemma next_higher_ok:
  assumes "next_higher m = Some n" and "bitrate_ok m"
  shows "bitrate_ok n"
proof -
  have up: "bitrate_ok (retarget (m\<lparr>md_fps := 60\<rparr>))"
    by (rule retarget_ok) (use volume_60 [of 60 "md_width m" "md_height m"] in simp)
  have res: "bitrate_ok (retarget (m\<lparr>md_width := w, md_height := h\<rparr>))"
    if "unat w * unat h \<le> 3840 * 2160" for w h
    by (rule retarget_ok) (use volume_4k [OF that] in simp)
  show ?thesis
    using assms up res [of 1920 1080] res [of 3840 2160]
    by (auto simp: next_higher_def simp del: retarget_simps split: if_splits)
qed

lemma observe_ok:
  assumes "observe st tm rtt now = (a, st')" and "bitrate_ok (as_current st)"
  shows "bitrate_ok (as_current st')"
  using assms observe_StepDown(1,2) observe_StepUp(1,2) observe_ActNone(1)
    next_lower_ok next_higher_ok
  by (cases a) metis+

lemma run_observe_ok:
  "bitrate_ok (as_current st) \<Longrightarrow> bitrate_ok (as_current (snd (run_observe st ss)))"
proof (induction ss arbitrary: st)
  case (Cons s ss)
  obtain tm rtt now where s: "s = (tm, rtt, now)" by (cases s)
  obtain a st1 where o: "observe st tm rtt now = (a, st1)" by fastforce
  from Cons.IH [OF observe_ok [OF o Cons.prems]] show ?case
    by (simp add: s o split_beta)
qed simp

section \<open>Properties\<close>

text \<open>C24. Cooldowns: in every run over any sequence of telemetry samples, whatever their
  timestamps, an action comes at least 2 s (step-down) or 5 s (step-up) after every earlier
  action of the run.\<close>

theorem actions_respect_cooldowns:
  "sorted_wrt spaced (fst (run_observe st ss))"
  using run_observe_spaced [of st ss] by (rule conjunct1)


definition tm_queue :: telemetry where
  "tm_queue = \<lparr> tm_ts_usec = 0, tm_battery_level = Fin 1, tm_battery_state = BatFull,
     tm_thermal_state = ThNominal, tm_sent_bitrate_kbps = 0, tm_enc_fps = 30,
     tm_capture_fps = 30, tm_queue_depth = 3, tm_drop_count = 0 \<rparr>"

definition low_720p30 :: mode where
  "low_720p30 = \<lparr> md_format = FmtEncoded, md_codec = CnHevc, md_width = 1280, md_height = 720,
     md_fps = 30, md_bitrate_kbps = 1500, md_pixel_format = Nv12, md_full_range = True \<rparr>"

lemma ladder_low_720p30:
  "ladder low_720p30 = [low_720p30\<lparr>md_bitrate_kbps := 1125\<rparr>, low_720p30\<lparr>md_bitrate_kbps := 843\<rparr>]"
proof -
  have s1: "next_lower low_720p30 = Some (low_720p30\<lparr>md_bitrate_kbps := 1125\<rparr>)"
    by (simp add: next_lower_def low_720p30_def)
  have s2: "next_lower (low_720p30\<lparr>md_bitrate_kbps := 1125\<rparr>) = Some (low_720p30\<lparr>md_bitrate_kbps := 843\<rparr>)"
    by (simp add: next_lower_def low_720p30_def)
  have s3: "next_lower (low_720p30\<lparr>md_bitrate_kbps := 843\<rparr>) = None"
    by (simp add: next_lower_def low_720p30_def)
  show ?thesis by (simp add: ladder_Some [OF s1] ladder_Some [OF s2] s3)
qed


text \<open>C26. A step-down never raises the resolution or the frame rate, never goes from encoded
  back to raw, and strictly decreases (raw, pixels, frame rate above 30, bitrate) in
  lexicographic order.\<close>

theorem step_down_is_lower:
  assumes "observe st tm rtt now = (StepDown n, st')"
  shows "unat (md_width n) * unat (md_height n)
           \<le> unat (md_width (as_current st)) * unat (md_height (as_current st))
    \<and> md_fps n \<le> md_fps (as_current st)
    \<and> (md_format n = FmtRaw \<longrightarrow> md_format (as_current st) = FmtRaw)
    \<and> (ladder_measure n, ladder_measure (as_current st))
        \<in> less_than <*lex*> less_than <*lex*> less_than <*lex*> less_than
    \<and> as_current st' = n"
proof -
  note low = observe_StepDown(1) [OF assms]
  have "md_format n = FmtRaw \<longrightarrow> md_format (as_current st) = FmtRaw"
    using next_lower_fields(3) [OF low] by (cases "md_format (as_current st)") auto
  then show ?thesis
    using next_lower_fields(1,2) [OF low] next_lower_measure [OF low] observe_StepDown(2) [OF assms]
    by (simp del: ladder_measure.simps)
qed

theorem step_down_is_lower_witness:
  "md_fps (low_720p30\<lparr>md_bitrate_kbps := 1125\<rparr>) \<le> md_fps low_720p30
   \<and> (ladder_measure (low_720p30\<lparr>md_bitrate_kbps := 1125\<rparr>), ladder_measure low_720p30)
        \<in> less_than <*lex*> less_than <*lex*> less_than <*lex*> less_than"
proof -
  have "observe (new_at low_720p30 0) tm_queue (Fin 0) (from_secs 2) =
      (StepDown (low_720p30\<lparr>md_bitrate_kbps := 1125\<rparr>),
       snd (observe (new_at low_720p30 0) tm_queue (Fin 0) (from_secs 2)))"
    by (simp add: observe_defs is_congested_def cooldown_elapsed_def new_at_def tm_queue_def
        STEPDOWN_COOLDOWN_def from_secs_def duration_since_def next_lower_def low_720p30_def)
  from step_down_is_lower [OF this] show ?thesis
    by (simp add: new_at_def del: ladder_measure.simps)
qed


definition tm_clear :: telemetry where
  "tm_clear = tm_queue\<lparr>tm_queue_depth := 0\<rparr>"

definition three_clear :: "sample list" where
  "three_clear = [(tm_clear, Fin 0, from_secs 1), (tm_clear, Fin 0, from_secs 2),
     (tm_clear, Fin 0, from_secs 3)]"

lemmas observe_eval = observe_defs is_congested_def cooldown_elapsed_def new_at_def tm_queue_def
  tm_clear_def STEPDOWN_COOLDOWN_def STEPUP_COOLDOWN_def from_secs_def duration_since_def
  saturating_inc32_def update_base_rtt_def STABLE_SAMPLES_BEFORE_STEPUP_def zero_f64_def
  less_f64_def

lemma run_three_clear:
  "snd (run_observe (new_at low_720p30 0) three_clear)
   = (new_at low_720p30 0)\<lparr>as_consecutive_stable := 3\<rparr>"
  by (simp add: three_clear_def observe_eval)


text \<open>C40. The 32-bit bitrate arithmetic never wraps: from a mode whose encoded bitrate is
  at most \<open>(2 ^ 32 - 1) / 3\<close>, every mode a run goes through stays below that bound, so
  \<open>bitrate * 3 / 4\<close> is the exact three quarters, although a resolution or frame-rate step
  recomputes the bitrate from the table.\<close>

theorem bitrate_arithmetic_exact:
  assumes "bitrate_ok (as_current st)" and "md_format (as_current (snd (run_observe st ss))) = FmtEncoded"
  shows "unat (md_bitrate_kbps (as_current (snd (run_observe st ss))) * 3 div 4)
    = unat (md_bitrate_kbps (as_current (snd (run_observe st ss)))) * 3 div 4"
  using run_observe_ok [OF assms(1)] assms(2) by (simp add: unat_div bitrate_mul3)

theorem bitrate_arithmetic_exact_witness:
  "unat (md_bitrate_kbps (as_current (snd (run_observe (new_at low_720p30 0) three_clear))) * 3 div 4)
   = 1125"
proof -
  have "bitrate_ok (as_current (new_at low_720p30 0))"
    by (simp add: bitrate_ok_def new_at_def low_720p30_def)
  moreover have "md_format (as_current (snd (run_observe (new_at low_720p30 0) three_clear))) = FmtEncoded"
    unfolding run_three_clear by (simp add: low_720p30_def)
  ultimately have "unat (md_bitrate_kbps (as_current (snd (run_observe (new_at low_720p30 0) three_clear))) * 3 div 4)
    = unat (md_bitrate_kbps (as_current (snd (run_observe (new_at low_720p30 0) three_clear)))) * 3 div 4"
    by (rule bitrate_arithmetic_exact)
  then show ?thesis unfolding run_three_clear by (simp add: low_720p30_def)
qed

text \<open>A step-down can raise the bitrate: at 1080p30 the ladder lowers the bitrate below
  1000 kbit/s and then drops to 720p30 with the table's 12000 kbit/s.\<close>

theorem step_down_can_raise_bitrate:
  "next_lower (default_streaming_1080p30\<lparr>md_bitrate_kbps := 900\<rparr>)
   = Some (default_streaming_1080p30\<lparr>md_width := 1280, md_height := 720, md_bitrate_kbps := 12000\<rparr>)"
  by (simp add: next_lower_def default_streaming_1080p30_def encoded_target_def
      hevc_target_kbps_def u32_clamp_def)

text \<open>With a round-trip time of zero, as the session loops pass it, the baseline stays zero
  and only the queue and the drop counter count as congestion.\<close>

lemma zero_rtt_congestion:
  assumes "as_base_rtt_ms st = Fin 0"
  shows "is_congested st tm (Fin 0) \<longleftrightarrow>
           0 < tm_queue_depth tm \<or> as_last_drop_count st < tm_drop_count tm"
    and "as_base_rtt_ms (snd (observe st tm (Fin 0) now)) = Fin 0"
  using assms
  by (auto simp: is_congested_def observe_defs update_base_rtt_def f64_op_defs
        split: if_splits option.splits)

end
