(* ===== verification/App_Pairing.thy ===== *)
theory App_Pairing
  imports Session_State Transport_Usb Adaptive_Ladder
begin

text \<open>
  The application crate's parts (\<open>crates/app/src/pairing_store.rs\<close>,
  \<open>transport_selector.rs\<close>, \<open>adaptation_driver.rs\<close>, \<open>usb_supervisor.rs\<close>). The base64 and TOML
  codecs are third-party and arguments of the definitions (\<open>pairing_codec\<close>); the disk is an
  explicit map from file names to contents. The store's table is an instance of \<open>kv_store\<close>.
  The theorems: a stored key survives a restart, a crash while saving leaves the old or the
  new file, the driver sends exactly one SET_MODE per action of the adaptation, and the
  supervisor hands over exactly the devices it could dial.
\<close>

section \<open>Pairing material\<close>

datatype pairing_store_error = PsIo | TomlDe | TomlSer | B64Error | NoConfigDir

record on_disk_entry =
  od_pairing_key_b64 :: string
  od_paired_at :: string

type_synonym on_disk = "string \<rightharpoonup> on_disk_entry"

record pairing_codec =
  pc_b64_encode :: "bytes \<Rightarrow> string"
  pc_b64_decode :: "string \<Rightarrow> bytes option"
  pc_toml_print :: "on_disk \<Rightarrow> string option"
  pc_toml_parse :: "string \<Rightarrow> on_disk option"

text \<open>\<open>PairingMaterial\<close> is its bytes; \<open>new_random\<close> is given the random bytes.\<close>

type_synonym pairing_material = bytes

definition as_b64 :: "pairing_codec \<Rightarrow> pairing_material \<Rightarrow> string" where
  "as_b64 C mat = pc_b64_encode C mat"

definition from_b64 :: "pairing_codec \<Rightarrow> string \<Rightarrow> pairing_store_error + pairing_material" where
  "from_b64 C s = (case pc_b64_decode C s of Some bs \<Rightarrow> Inr bs | None \<Rightarrow> Inl B64Error)"

text \<open>The \<open>Debug\<close> output: the length of the secret and nothing else.\<close>

definition debug_material :: "pairing_material \<Rightarrow> string" where
  "debug_material mat = ''PairingMaterial(<redacted '' @ show_nat (length mat) @ '' bytes>)''"

section \<open>The disk\<close>

text \<open>A path is its directory, stem and extension. \<open>dk_fail\<close> makes every operation fail, a write
  after the given number of its intermediate states.\<close>

record fpath =
  fp_dir :: string
  fp_stem :: string
  fp_ext :: string

definition file_name :: "fpath \<Rightarrow> string" where
  "file_name p = fp_dir p @ ''/'' @ fp_stem p @ ''.'' @ fp_ext p"

definition with_extension :: "string \<Rightarrow> fpath \<Rightarrow> fpath" where
  "with_extension e p = p\<lparr>fp_ext := e\<rparr>"

record disk =
  dk_files :: "string \<rightharpoonup> string"
  dk_fail :: "nat option"

text \<open>
  \<open>write_atomically\<close> as the sequence of disk states it goes through: the temporary file is
  written prefix by prefix, then renamed.
\<close>

definition write_states :: "fpath \<Rightarrow> string \<Rightarrow> disk \<Rightarrow> disk list" where
  "write_states path contents d =
     (let tmp = file_name (with_extension ''toml.tmp'' path);
          partial = map (\<lambda>k. d\<lparr>dk_files := (dk_files d)(tmp \<mapsto> take k contents)\<rparr>)
                      [0..<Suc (length contents)]
      in partial @ [d\<lparr>dk_files := ((dk_files d)(tmp := None))(file_name path \<mapsto> contents)\<rparr>])"

definition write_atomically :: "fpath \<Rightarrow> string \<Rightarrow> disk \<Rightarrow> (pairing_store_error + unit) \<times> disk" where
  "write_atomically path contents d =
     (let states = write_states path contents d
      in case dk_fail d of
           None \<Rightarrow> (Inr (), last states)
         | Some k \<Rightarrow> (Inl PsIo, (d # butlast states) ! min k (length states - 1)))"

section \<open>The store\<close>

record pairing_store =
  ps_path :: fpath
  ps_data :: on_disk

definition open_at ::
    "pairing_codec \<Rightarrow> fpath \<Rightarrow> disk \<Rightarrow> pairing_store_error + pairing_store" where
  "open_at C path d =
     (if dk_fail d \<noteq> None then Inl PsIo
      else case dk_files d (file_name path) of
             Some text \<Rightarrow>
               (case pc_toml_parse C text of
                  Some data \<Rightarrow> Inr \<lparr> ps_path = path, ps_data = data \<rparr>
                | None \<Rightarrow> Inl TomlDe)
           | None \<Rightarrow> Inr \<lparr> ps_path = path, ps_data = Map.empty \<rparr>)"

text \<open>\<open>config_dir\<close> is the platform's configuration directory, if it has one.\<close>

definition open_default ::
    "pairing_codec \<Rightarrow> string option \<Rightarrow> disk \<Rightarrow> pairing_store_error + pairing_store" where
  "open_default C config_dir d =
     (case config_dir of
        None \<Rightarrow> Inl NoConfigDir
      | Some dir \<Rightarrow> open_at C \<lparr> fp_dir = dir, fp_stem = ''pairings'', fp_ext = ''toml'' \<rparr> d)"

definition store_get ::
    "pairing_codec \<Rightarrow> string \<Rightarrow> pairing_store \<Rightarrow> pairing_store_error + pairing_material option" where
  "store_get C udid st =
     (case ps_data st udid of
        Some entry \<Rightarrow>
          (case from_b64 C (od_pairing_key_b64 entry) of
             Inr mat \<Rightarrow> Inr (Some mat)
           | Inl e \<Rightarrow> Inl e)
      | None \<Rightarrow> Inr None)"

definition save ::
    "pairing_codec \<Rightarrow> pairing_store \<Rightarrow> disk \<Rightarrow> (pairing_store_error + unit) \<times> pairing_store \<times> disk" where
  "save C st d =
     (case pc_toml_print C (ps_data st) of
        None \<Rightarrow> (Inl TomlSer, st, d)
      | Some text \<Rightarrow> (case write_atomically (ps_path st) text d of (r, d') \<Rightarrow> (r, st, d')))"

text \<open>\<open>put\<close> at the time \<open>now\<close>: the entry goes into memory first, then to disk.\<close>

definition store_put ::
    "pairing_codec \<Rightarrow> string \<Rightarrow> string \<Rightarrow> pairing_material \<Rightarrow> pairing_store \<Rightarrow> disk
     \<Rightarrow> (pairing_store_error + unit) \<times> pairing_store \<times> disk" where
  "store_put C now udid mat st d =
     save C (st\<lparr>ps_data := (ps_data st)(udid \<mapsto>
               \<lparr> od_pairing_key_b64 = as_b64 C mat, od_paired_at = now \<rparr>)\<rparr>) d"

definition store_forget ::
    "pairing_codec \<Rightarrow> string \<Rightarrow> pairing_store \<Rightarrow> disk
     \<Rightarrow> (pairing_store_error + unit) \<times> pairing_store \<times> disk" where
  "store_forget C udid st d = save C (st\<lparr>ps_data := (ps_data st)(udid := None)\<rparr>) d"

definition store_list :: "pairing_store \<Rightarrow> string set" where
  "store_list st = dom (ps_data st)"

section \<open>Transport selection\<close>

datatype transport_candidate = CandWifi | CandUsb

definition decide_active :: "string \<Rightarrow> transport_candidate list \<Rightarrow> transport_candidate option" where
  "decide_active udid candidates =
     (if CandUsb \<in> set candidates then Some CandUsb
      else if CandWifi \<in> set candidates then Some CandWifi
      else None)"

section \<open>The adaptation driver\<close>

record adaptation_driver =
  dr_state :: adaptation_state
  dr_outbound :: "control_message list"

definition driver_new :: "control_message list \<Rightarrow> mode \<Rightarrow> instant \<Rightarrow> adaptation_driver" where
  "driver_new outbound initial_mode now =
     \<lparr> dr_state = new_at initial_mode now, dr_outbound = outbound \<rparr>"

definition driver_observe :: "telemetry \<Rightarrow> f64 \<Rightarrow> instant \<Rightarrow> adaptation_driver \<Rightarrow> adaptation_driver" where
  "driver_observe telemetry rtt_ms now d =
     (case observe (dr_state d) telemetry rtt_ms now of
        (ActNone, st) \<Rightarrow> d\<lparr>dr_state := st\<rparr>
      | (StepDown new_mode, st) \<Rightarrow>
          d\<lparr>dr_state := st, dr_outbound := dr_outbound d @ [SetMode \<lparr> sm_mode = new_mode \<rparr>]\<rparr>
      | (StepUp new_mode, st) \<Rightarrow>
          d\<lparr>dr_state := st, dr_outbound := dr_outbound d @ [SetMode \<lparr> sm_mode = new_mode \<rparr>]\<rparr>)"

section \<open>The USB supervisor\<close>

record dialed_streams =
  dl_udid :: string
  dl_control :: control_stream
  dl_media :: media_stream
  dl_pairing_key_b64 :: "string option"

definition dialed_peer :: "dialed_streams \<Rightarrow> peer_info" where
  "dialed_peer dl = cst_peer (dl_control dl)"

text \<open>What one bus event makes the supervisor hand over; the store is read as it is then.\<close>

definition supervise ::
    "pairing_codec \<Rightarrow> (u32 \<Rightarrow> u16 \<Rightarrow> usb_transport_error + wire) \<Rightarrow> pairing_store \<Rightarrow> usb_event
     \<Rightarrow> dialed_streams option" where
  "supervise C open_port store ev =
     (case ev of
        Connected dev \<Rightarrow>
          (case open_pair open_port (ud_id dev) (ud_udid dev) of
             Inl e \<Rightarrow> None
           | Inr (control, media) \<Rightarrow>
               let key = (case store_get C (ud_udid dev) store of
                            Inr (Some k) \<Rightarrow> Some (as_b64 C k)
                          | Inr None \<Rightarrow> None
                          | Inl e \<Rightarrow> None)
               in Some \<lparr> dl_udid = ud_udid dev, dl_control = control, dl_media = media,
                         dl_pairing_key_b64 = key \<rparr>)
      | Lost i udid \<Rightarrow> None)"

text \<open>The run of the supervisor until its receiver is gone after \<open>room\<close> hand-overs (\<open>None\<close>:
  never).\<close>

fun supervisor_run ::
    "pairing_codec \<Rightarrow> (u32 \<Rightarrow> u16 \<Rightarrow> usb_transport_error + wire) \<Rightarrow> pairing_store \<Rightarrow> nat option
     \<Rightarrow> usb_event list \<Rightarrow> dialed_streams list" where
  "supervisor_run C open_port store room [] = []"
| "supervisor_run C open_port store room (ev # evs) =
     (case supervise C open_port store ev of
        None \<Rightarrow> supervisor_run C open_port store room evs
      | Some dl \<Rightarrow>
          (case room of
             None \<Rightarrow> dl # supervisor_run C open_port store None evs
           | Some 0 \<Rightarrow> []
           | Some (Suc n) \<Rightarrow> dl # supervisor_run C open_port store (Some n) evs))"

section \<open>The store is a key-value store\<close>

text \<open>The key of a device as the store holds it.\<close>

definition stored_key :: "pairing_store \<Rightarrow> string \<Rightarrow> string option" where
  "stored_key st udid = map_option od_pairing_key_b64 (ps_data st udid)"

definition set_key :: "string \<Rightarrow> string \<Rightarrow> pairing_store \<Rightarrow> pairing_store" where
  "set_key udid key st =
     st\<lparr>ps_data := (ps_data st)(udid \<mapsto> \<lparr> od_pairing_key_b64 = key, od_paired_at = [] \<rparr>)\<rparr>"

definition drop_key :: "string \<Rightarrow> pairing_store \<Rightarrow> pairing_store" where
  "drop_key udid st = st\<lparr>ps_data := (ps_data st)(udid := None)\<rparr>"

definition empty_store :: "fpath \<Rightarrow> pairing_store" where
  "empty_store path = \<lparr> ps_path = path, ps_data = Map.empty \<rparr>"

interpretation pairings: kv_store "empty_store path" stored_key set_key drop_key "\<lambda>_. True"
  for path
  by unfold_locales (auto simp: stored_key_def set_key_def drop_key_def empty_store_def)

lemma save_memory: "save C st d = (r, st', d') \<Longrightarrow> st' = st"
  by (auto simp: save_def split: option.splits prod.splits)

lemma store_put_memory:
  assumes "store_put C now udid mat st d = (r, st', d')"
  shows "stored_key st' u = stored_key (set_key udid (as_b64 C mat) st) u" and "ps_path st' = ps_path st"
  using save_memory [OF assms [unfolded store_put_def]] by (simp_all add: stored_key_def set_key_def)

lemma store_forget_memory:
  assumes "store_forget C udid st d = (r, st', d')"
  shows "st' = drop_key udid st"
  using save_memory [OF assms [unfolded store_forget_def]] by (simp add: drop_key_def)

lemma write_atomically_ok:
  assumes "dk_fail d = None"
  shows "fst (write_atomically path text d) = Inr ()"
    and "dk_files (snd (write_atomically path text d)) (file_name path) = Some text"
    and "dk_fail (snd (write_atomically path text d)) = dk_fail d"
  using assms by (simp_all add: write_atomically_def write_states_def Let_def)

lemma tmp_differs:
  assumes "CHR ''.'' \<notin> set (fp_ext path)"
  shows "file_name (with_extension ''toml.tmp'' path) \<noteq> file_name path"
proof
  assume "file_name (with_extension ''toml.tmp'' path) = file_name path"
  then have "fp_ext path = ''toml.tmp''" by (simp add: file_name_def with_extension_def)
  with assms show False by simp
qed

lemma write_states_file:
  assumes "CHR ''.'' \<notin> set (fp_ext path)" and "s \<in> set (write_states path text d)"
  shows "dk_files s (file_name path) = dk_files d (file_name path) \<or> dk_files s (file_name path) = Some text"
  using assms(2) tmp_differs [OF assms(1)] by (auto simp: write_states_def Let_def)

fun mode_of_action :: "action \<Rightarrow> mode option" where
  "mode_of_action ActNone = None"
| "mode_of_action (StepDown m) = Some m"
| "mode_of_action (StepUp m) = Some m"

definition set_modes :: "(instant \<times> action) list \<Rightarrow> control_message list" where
  "set_modes acts = map (\<lambda>m. SetMode \<lparr> sm_mode = m \<rparr>) (List.map_filter (\<lambda>a. mode_of_action (snd a)) acts)"

fun drive :: "sample list \<Rightarrow> adaptation_driver \<Rightarrow> adaptation_driver" where
  "drive [] d = d"
| "drive ((tm, rtt, now) # ss) d = drive ss (driver_observe tm rtt now d)"

lemma driver_observe_eq:
  "driver_observe tm rtt now d =
     d\<lparr>dr_state := snd (observe (dr_state d) tm rtt now),
       dr_outbound := dr_outbound d @ set_modes (if fst (observe (dr_state d) tm rtt now) = ActNone then []
          else [(now, fst (observe (dr_state d) tm rtt now))])\<rparr>"
  by (auto simp: driver_observe_def set_modes_def List.map_filter_def split: prod.splits action.splits)

lemma set_modes_Nil [simp]: "set_modes [] = []"
  by (simp add: set_modes_def List.map_filter_def)

lemma set_modes_append: "set_modes (a @ b) = set_modes a @ set_modes b"
  by (simp add: set_modes_def List.map_filter_def)

lemma drive_run_observe:
  "drive ss d = d\<lparr>dr_state := snd (run_observe (dr_state d) ss),
     dr_outbound := dr_outbound d @ set_modes (fst (run_observe (dr_state d) ss))\<rparr>"
proof (induction ss arbitrary: d)
  case Nil
  then show ?case by (simp add: set_modes_def List.map_filter_def)
next
  case (Cons s ss)
  obtain tm rtt now where s: "s = (tm, rtt, now)" by (cases s)
  obtain a st1 where o: "observe (dr_state d) tm rtt now = (a, st1)" by fastforce
  obtain acts st2 where r: "run_observe st1 ss = (acts, st2)" by fastforce
  have app: "set_modes ((now, a) # acts) = set_modes [(now, a)] @ set_modes acts"
    using set_modes_append [of "[(now, a)]" acts] by simp
  show ?case
  proof (cases "a = ActNone")
    case True
    then show ?thesis by (simp add: s Cons.IH driver_observe_eq o r)
  next
    case False
    then show ?thesis using app by (simp add: s Cons.IH driver_observe_eq o r)
  qed
qed

lemma supervisor_run_all:
  "supervisor_run C op st None evs = List.map_filter (supervise C op st) evs"
  by (induction evs) (simp_all add: List.map_filter_def split: option.split)

lemma failed_write_keeps_file:
  assumes "dk_fail d = Some k" and "CHR ''.'' \<notin> set (fp_ext path)"
    and "write_atomically path contents d = (r, d')"
  shows "r = Inl PsIo \<and> dk_files d' (file_name path) = dk_files d (file_name path)"
proof -
  let ?b = "butlast (write_states path contents d)"
  have "d' = (d # ?b) ! min k (length ?b)" and r: "r = Inl PsIo"
    using assms(1,3) by (auto simp: write_atomically_def Let_def)
  then have "d' \<in> set (d # ?b)" by (metis length_Cons less_Suc_eq_le min.cobounded2 nth_mem)
  then show ?thesis using r tmp_differs [OF assms(2)] by (auto simp: write_states_def Let_def butlast_append)
qed

section \<open>Properties\<close>

text \<open>C33. A pairing survives a restart: after a successful \<open>put\<close>, opening the store again
  from the disk finds that key for that device, and every other device keeps the key it had.\<close>

theorem pairing_survives_restart:
  assumes "store_put C now udid mat st d = (Inr (), st', d')"
    and "pc_toml_print C (ps_data st') = Some toml" and "pc_toml_parse C toml = Some (ps_data st')"
    and "pc_b64_decode C (pc_b64_encode C mat) = Some mat"
  shows "open_at C (ps_path st) d' = Inr st' \<and> store_get C udid st' = Inr (Some mat)
    \<and> (u \<noteq> udid \<longrightarrow> store_get C u st' = store_get C u st)"
proof -
  have put: "save C (st\<lparr>ps_data := (ps_data st)(udid \<mapsto>
      \<lparr> od_pairing_key_b64 = as_b64 C mat, od_paired_at = now \<rparr>)\<rparr>) d = (Inr (), st', d')"
    using assms(1) by (simp add: store_put_def)
  have mem: "st' = st\<lparr>ps_data := (ps_data st)(udid \<mapsto>
      \<lparr> od_pairing_key_b64 = as_b64 C mat, od_paired_at = now \<rparr>)\<rparr>"
    using save_memory [OF put] by simp
  have ok: "dk_fail d = None" and d': "d' = snd (write_atomically (ps_path st) toml d)"
    using put assms(2) by (auto simp: save_def mem write_atomically_def Let_def split: option.splits)
  have "open_at C (ps_path st) d' = Inr st'"
    using write_atomically_ok [OF ok, of "ps_path st" toml] ok assms(3)
    by (cases st) (simp add: open_at_def d' mem)
  then show ?thesis
    using assms(4) by (simp add: mem store_get_def from_b64_def as_b64_def)
qed

text \<open>A codec whose laws hold for one table.\<close>

definition demo_table :: on_disk where
  "demo_table = [''U1'' \<mapsto> \<lparr> od_pairing_key_b64 = [char_of (65 :: nat)], od_paired_at = ''t0'' \<rparr>]"

definition demo_codec :: pairing_codec where
  "demo_codec = \<lparr> pc_b64_encode = (\<lambda>bs. map (\<lambda>b. char_of (unat b)) bs),
     pc_b64_decode = (\<lambda>s. Some (map (\<lambda>c. word_of_nat (of_char c)) s)),
     pc_toml_print = (\<lambda>t. Some ''toml''),
     pc_toml_parse = (\<lambda>s. if s = ''toml'' then Some demo_table else None) \<rparr>"

definition demo_path :: fpath where
  "demo_path = \<lparr> fp_dir = ''cfg'', fp_stem = ''pairings'', fp_ext = ''toml'' \<rparr>"

theorem pairing_survives_restart_witness:
  "\<exists>st' d'. store_put demo_codec ''t0'' ''U1'' [65] (empty_store demo_path) \<lparr> dk_files = Map.empty, dk_fail = None \<rparr>
       = (Inr (), st', d') \<and> open_at demo_codec demo_path d' = Inr st'"
proof -
  let ?d = "\<lparr> dk_files = Map.empty, dk_fail = None \<rparr>"
  obtain r st' d' where put: "store_put demo_codec ''t0'' ''U1'' [65] (empty_store demo_path) ?d = (r, st', d')"
    by (cases "store_put demo_codec ''t0'' ''U1'' [65] (empty_store demo_path) ?d") auto
  have st': "ps_data st' = demo_table"
    using save_memory [OF put [unfolded store_put_def]]
    by (simp add: empty_store_def demo_table_def as_b64_def demo_codec_def)
  have r: "r = Inr ()"
    using put by (auto simp: store_put_def save_def demo_codec_def write_atomically_def split: prod.splits)
  have "open_at demo_codec (ps_path (empty_store demo_path)) d' = Inr st'
      \<and> store_get demo_codec ''U1'' st' = Inr (Some [65])
      \<and> (''U2'' \<noteq> ''U1'' \<longrightarrow> store_get demo_codec ''U2'' st' = store_get demo_codec ''U2'' (empty_store demo_path))"
    by (rule pairing_survives_restart [OF put [unfolded r], where toml = "''toml''"])
      (simp_all add: st' demo_codec_def)
  then show ?thesis using put r by (auto simp: empty_store_def)
qed



text \<open>A failed save is not undone in memory: when the disk fails, \<open>put\<close> returns an error
  but the store answers with the new key, while the disk still has the old table.\<close>

theorem failed_put_stays_in_memory:
  assumes "dk_fail d = Some k" and "store_put C now udid mat st d = (r, st', d')"
    and "pc_b64_decode C (pc_b64_encode C mat) = Some mat"
    and "CHR ''.'' \<notin> set (fp_ext (ps_path st))"
  shows "(r = Inl PsIo \<or> r = Inl TomlSer) \<and> store_get C udid st' = Inr (Some mat) \<and>
    dk_files d' (file_name (ps_path st)) = dk_files d (file_name (ps_path st))"
  using assms(1-3) save_memory [OF assms(2) [unfolded store_put_def]]
    failed_write_keeps_file [OF assms(1,4)]
  by (auto simp: store_put_def save_def store_get_def from_b64_def as_b64_def
      split: option.splits prod.splits)

theorem failed_put_stays_in_memory_witness:
  "\<exists>st' d'. store_put demo_codec ''t0'' ''U1'' [65] (empty_store demo_path) \<lparr> dk_files = Map.empty, dk_fail = Some 3 \<rparr>
      = (Inl PsIo, st', d')
    \<and> store_get demo_codec ''U1'' st' = Inr (Some [65]) \<and> dk_files d' (file_name demo_path) = None"
proof -
  let ?d = "\<lparr> dk_files = Map.empty, dk_fail = Some 3 \<rparr>"
  obtain r st' d' where put: "store_put demo_codec ''t0'' ''U1'' [65] (empty_store demo_path) ?d = (r, st', d')"
    by (cases "store_put demo_codec ''t0'' ''U1'' [65] (empty_store demo_path) ?d") auto
  have "r = Inl PsIo"
    using put by (auto simp: store_put_def save_def demo_codec_def write_atomically_def Let_def split: prod.splits)
  moreover have "CHR ''.'' \<notin> set (fp_ext (ps_path (empty_store demo_path)))"
    by (simp add: empty_store_def demo_path_def)
  ultimately show ?thesis
    using failed_put_stays_in_memory [OF _ put] put
    by (auto simp: demo_codec_def empty_store_def)
qed

text \<open>The driver sends what the adaptation decides: over any sequence of telemetry samples
  the outbound queue gains exactly one SET_MODE per action, with the mode of that action, in
  order, and the actions are spaced by their cooldowns.\<close>

theorem driver_sends_actions:
  "dr_outbound (drive ss d) = dr_outbound d @ set_modes (fst (run_observe (dr_state d) ss))
   \<and> sorted_wrt spaced (fst (run_observe (dr_state d) ss))"
  using run_observe_spaced [of "dr_state d" ss] by (simp add: drive_run_observe)

text \<open>The supervisor hands over what it could dial: as long as its receiver lives, the
  streams handed over are, in order, those of the connected devices whose two ports opened,
  each with the key the store holds for the device.\<close>

theorem supervisor_hands_over_dialed:
  "supervisor_run C op st None evs = List.map_filter (supervise C op st) evs
   \<and> (supervise C op st ev = Some dl \<longrightarrow>
       (\<exists>dev. ev = Connected dev \<and> dl_udid dl = ud_udid dev
          \<and> open_pair op (ud_id dev) (ud_udid dev) = Inr (dl_control dl, dl_media dl)
          \<and> dl_pairing_key_b64 dl = (case store_get C (ud_udid dev) st of
               Inr k \<Rightarrow> map_option (as_b64 C) k | Inl e \<Rightarrow> None)))"
  using supervisor_run_all [of C op st evs]
  by (auto simp: supervise_def Let_def split: usb_event.splits sum.splits prod.splits option.splits)

theorem supervisor_hands_over_dialed_witness:
  "supervisor_run demo_codec (\<lambda>i p. Inl Unsupported) (empty_store demo_path) None [Lost 1 ''u'']
   = List.map_filter (supervise demo_codec (\<lambda>i p. Inl Unsupported) (empty_store demo_path)) [Lost 1 ''u'']"
  using supervisor_hands_over_dialed
    [of demo_codec "\<lambda>i p. Inl Unsupported" "empty_store demo_path" "[Lost 1 ''u'']" "Lost 1 ''u''"]
  by blast

end
