(* ===== verification/Base64_Url.thy ===== *)
theory Base64_Url
  imports Prelude
begin

text \<open>
  The token encoder of the application (\<open>base64_url\<close> in \<open>crates/app/src/lib.rs\<close>): base64
  with the URL alphabet and without padding, three bytes at a time on 32-bit words. The
  theorem is a decoder that recovers the bytes, so distinct tokens have distinct texts, and
  the length of the text.
\<close>

unbundle bit_operations_syntax

definition ALPHABET :: string where
  "ALPHABET = ''ABCDEFGHIJKLMNOPQRSTUVWXYZabcdefghijklmnopqrstuvwxyz0123456789-_''"

text \<open>\<open>ALPHABET[((n >> k) & 0x3f) as usize]\<close>.\<close>

definition sextet :: "u32 \<Rightarrow> nat \<Rightarrow> char" where
  "sextet n k = ALPHABET ! unat (drop_bit k n AND 0x3f)"

definition chunk_word :: "u8 \<Rightarrow> u8 \<Rightarrow> u8 \<Rightarrow> u32" where
  "chunk_word a b c = push_bit 16 (ucast a) OR push_bit 8 (ucast b) OR ucast c"

fun base64_url :: "bytes \<Rightarrow> string" where
  "base64_url [] = []"
| "base64_url [a] = (let n = chunk_word a 0 0 in [sextet n 18, sextet n 12])"
| "base64_url [a, b] = (let n = chunk_word a b 0 in [sextet n 18, sextet n 12, sextet n 6])"
| "base64_url (a # b # c # rest) =
     (let n = chunk_word a b c
      in [sextet n 18, sextet n 12, sextet n 6, sextet n 0] @ base64_url rest)"

section \<open>A decoder\<close>

fun char_index :: "char \<Rightarrow> string \<Rightarrow> nat" where
  "char_index c [] = 0"
| "char_index c (x # xs) = (if x = c then 0 else Suc (char_index c xs))"

definition sextet_value :: "char \<Rightarrow> nat" where
  "sextet_value c = char_index c ALPHABET"

fun base64_decode :: "string \<Rightarrow> bytes" where
  "base64_decode (p # q # r # s # rest) =
     (let n = ((sextet_value p * 64 + sextet_value q) * 64 + sextet_value r) * 64 + sextet_value s
      in [word_of_nat (n div 65536), word_of_nat (n div 256 mod 256), word_of_nat (n mod 256)]
         @ base64_decode rest)"
| "base64_decode [p, q, r] =
     (let n = ((sextet_value p * 64 + sextet_value q) * 64 + sextet_value r) * 64
      in [word_of_nat (n div 65536), word_of_nat (n div 256 mod 256)])"
| "base64_decode [p, q] =
     (let n = (sextet_value p * 64 + sextet_value q) * 64 * 64
      in [word_of_nat (n div 65536)])"
| "base64_decode _ = []"

section \<open>Correctness\<close>

lemma char_index_nth: "distinct xs \<Longrightarrow> i < length xs \<Longrightarrow> char_index (xs ! i) xs = i"
  by (induction xs arbitrary: i) (auto simp: nth_Cons split: nat.splits)

lemma ALPHABET_ok: "distinct ALPHABET" "length ALPHABET = 64"
  by (simp_all add: ALPHABET_def)

lemma unat_sextet: "unat (drop_bit k n AND (0x3f :: u32)) = unat n div 2 ^ k mod 64"
proof -
  have "(0x3f :: u32) = mask 6" by (simp add: mask_eq_exp_minus_1)
  then have "drop_bit k n AND (0x3f :: u32) = take_bit 6 (drop_bit k n)"
    by (simp add: take_bit_eq_mask)
  then have "unat (drop_bit k n AND (0x3f :: u32)) = take_bit 6 (drop_bit k (unat n))"
    using unat_lt [of n]
    by (simp only: unsigned_take_bit_eq unsigned_drop_bit_eq) (simp add: take_bit_nat_eq_self)
  then show ?thesis by (simp add: take_bit_eq_mod drop_bit_eq_div)
qed

lemma sextet_value_sextet: "sextet_value (sextet n k) = unat n div 2 ^ k mod 64"
  by (simp add: sextet_value_def sextet_def unat_sextet char_index_nth ALPHABET_ok)

lemma unat_byte_lt: "unat (a :: u8) < 256"
  using unat_lt [of a] by simp

lemma bit_ucast_byte: "bit (ucast (a :: u8) :: u32) n \<Longrightarrow> n < 8"
  by (auto simp: bit_ucast_iff dest: bit_imp_le_length)

lemma chunk_word_sum: "chunk_word a b c = ucast a * 65536 + ucast b * 256 + ucast c"
proof -
  let ?a = "push_bit 16 (ucast a) :: u32" and ?b = "push_bit 8 (ucast b) :: u32" and ?c = "ucast c :: u32"
  have "?a OR ?b = ?a + ?b"
    by (rule disjunctive_add [symmetric]) (auto simp: bit_push_bit_iff dest: bit_ucast_byte)
  moreover have "?a OR ?b OR ?c = (?a OR ?b) OR ?c" by (simp add: or.assoc)
  moreover have "(?a OR ?b) OR ?c = (?a OR ?b) + ?c"
    by (rule disjunctive_add [symmetric]) (auto simp: bit_or_iff bit_push_bit_iff dest: bit_ucast_byte)
  ultimately show ?thesis
    by (simp add: chunk_word_def push_bit_eq_mult)
qed

lemma chunk_word_val: "unat (chunk_word a b c) = (unat a * 256 + unat b) * 256 + unat c"
proof -
  let ?n = "(unat a * 256 + unat b) * 256 + unat c"
  have "chunk_word a b c = word_of_nat ?n"
    by (simp add: chunk_word_sum algebra_simps)
  then have "unat (chunk_word a b c) = ?n mod 2 ^ 32" by (simp only: unat_of_nat) simp
  moreover have "?n < 2 ^ 32"
    using unat_byte_lt [of a] unat_byte_lt [of b] unat_byte_lt [of c] by simp
  ultimately show ?thesis by simp
qed

text \<open>The four sextets of a 24-bit number put it together again.\<close>

lemma sextets_join:
  fixes n :: nat
  assumes "n < 2 ^ 24"
  shows "((n div 2 ^ 18 mod 64 * 64 + n div 2 ^ 12 mod 64) * 64 + n div 2 ^ 6 mod 64) * 64 + n div 2 ^ 0 mod 64 = n"
proof -
  have "n div 2 ^ 18 mod 64 = n div 262144" using assms by (simp add: less_mult_imp_div_less)
  moreover have "n div 262144 * 64 + n div 4096 mod 64 = n div 4096"
    using div_mult_mod_eq [of "n div 4096" 64] by (simp add: div_mult2_eq [of n 4096 64, simplified, symmetric])
  moreover have "n div 4096 * 64 + n div 64 mod 64 = n div 64"
    using div_mult_mod_eq [of "n div 64" 64] by (simp add: div_mult2_eq [of n 64 64, simplified, symmetric])
  moreover have "n div 64 * 64 + n mod 64 = n" by simp
  ultimately show ?thesis by simp
qed

lemma chunk_lt: "(unat (a :: u8) * 256 + unat (b :: u8)) * 256 + unat (c :: u8) < 2 ^ 24"
  using unat_byte_lt [of a] unat_byte_lt [of b] unat_byte_lt [of c] by simp

lemma byte_split:
  fixes a b c :: u8
  shows "((unat a * 256 + unat b) * 256 + unat c) div 65536 = unat a"
    and "((unat a * 256 + unat b) * 256 + unat c) div 256 mod 256 = unat b"
    and "((unat a * 256 + unat b) * 256 + unat c) mod 256 = unat c"
proof -
  have hi: "(x * 256 + unat c) div 256 = x" "(x * 256 + unat c) mod 256 = unat c" for x and c :: u8
    using unat_byte_lt [of c] by simp_all
  show "((unat a * 256 + unat b) * 256 + unat c) div 256 mod 256 = unat b"
    "((unat a * 256 + unat b) * 256 + unat c) mod 256 = unat c"
    by (simp_all only: hi)
  have "((unat a * 256 + unat b) * 256 + unat c) div 65536
      = ((unat a * 256 + unat b) * 256 + unat c) div 256 div 256"
    by (simp add: div_mult2_eq [of _ 256 256, simplified])
  then show "((unat a * 256 + unat b) * 256 + unat c) div 65536 = unat a"
    by (simp only: hi)
qed

text \<open>The number a chunk's sextets encode.\<close>

lemma sextets_value:
  defines "s \<equiv> \<lambda>n k. sextet_value (sextet n k)"
  shows "((s (chunk_word a b c) 18 * 64 + s (chunk_word a b c) 12) * 64 + s (chunk_word a b c) 6) * 64
      + s (chunk_word a b c) 0 = (unat a * 256 + unat b) * 256 + unat c"
  unfolding s_def sextet_value_sextet chunk_word_val by (rule sextets_join [OF chunk_lt])

lemma sextets_value_short:
  "sextet_value (sextet (chunk_word a b 0) 0) = 0" "sextet_value (sextet (chunk_word a 0 0) 6) = 0"
proof -
  have "unat a * 256 * 256 div 64 = unat a * 1024" by simp
  then show "sextet_value (sextet (chunk_word a 0 0) 6) = 0"
    by (simp add: sextet_value_sextet chunk_word_val)
  show "sextet_value (sextet (chunk_word a b 0) 0) = 0"
    by (simp add: sextet_value_sextet chunk_word_val)
qed

lemma base64_decode_encode: "base64_decode (base64_url bs) = bs"
proof (induction bs rule: base64_url.induct)
  case (2 a)
  show ?case
    using sextets_value [of a 0 0] byte_split [of a 0 0] sextets_value_short(2) [of a] sextets_value_short(1) [of a 0]
    by (simp only: base64_url.simps base64_decode.simps Let_def) simp
next
  case (3 a b)
  show ?case
    using sextets_value [of a b 0] byte_split [of a b 0] sextets_value_short(1) [of a b]
    by (simp only: base64_url.simps base64_decode.simps Let_def) simp
next
  case (4 a b c rest)
  have "base64_decode (base64_url (a # b # c # rest)) =
      [word_of_nat (unat a), word_of_nat (unat b), word_of_nat (unat c)] @ base64_decode (base64_url rest)"
    by (simp only: base64_url.simps base64_decode.simps Let_def append.simps sextets_value byte_split)
  then show ?case using 4 by simp
qed simp

lemma length_base64_url: "length (base64_url bs) = (4 * length bs + 2) div 3"
proof (induction bs rule: base64_url.induct)
  case (4 a b c rest)
  have "(4 * length (a # b # c # rest) + 2) div 3 = 4 + (4 * length rest + 2) div 3" by simp
  with 4 show ?case by (simp add: Let_def)
qed (simp_all add: Let_def)

text \<open>Tokens are not confused: decoding the text of a token gives its bytes back, so two
  different tokens have different texts, and a token of \<open>n\<close> bytes has the length of unpadded
  base64, 32 characters for the 24 bytes the application draws.\<close>

theorem token_encoding_round_trip:
  "base64_decode (base64_url bs) = bs \<and> length (base64_url bs) = (4 * length bs + 2) div 3"
  by (simp add: base64_decode_encode length_base64_url)

end
