(* ===== verification/App_Core.thy ===== *)
theory App_Core
  imports Session_Control App_Pairing Adaptive_Speedtest Base64_Url
begin

text \<open>
  The application core (\<open>crates/app/src/lib.rs\<close>): the state an \<open>AppHandle\<close> shares with its
  tasks (snapshot, events, sinks, the slots of the active session), the accept loop that turns
  Wi-Fi connections into sessions and pairs media sockets with them, the USB consumer, the
  cleanup when a session ends, camera selection and the speedtest. A session is the state of
  its tasks: the control plane, its outbound queue, the adaptation driver and the media
  pipeline; sessions are numbered in the order they start. A task runs its first segment when
  it is spawned; the later steps of the tasks are separate operations, and \<open>app_run\<close> is the
  relation of all their interleavings.

  Queues are unbounded here: the channels of the code have a capacity (16 outbound messages, 64
  events) and make a sender wait, which changes when a step happens and not what it does. The
  theorems about these definitions are in \<open>App_Admission\<close>.
\<close>

section \<open>State\<close>

record qr_payload =
  qr_v :: u32
  qr_host :: string
  qr_cport :: u16
  qr_mport :: u16
  qr_token :: string

record 'k app_session =
  se_id :: string
  se_token :: string
  se_cp :: control_plane
  se_flow :: cp_flow
  se_out :: "control_message list"
  se_driver :: adaptation_driver
  se_inbox :: "media_stream option"
  se_media :: "(media_stream \<times> ('k, unit) pipeline) option"
  se_media_done :: bool

record 'k app_handle =
  ap_qr :: qr_payload
  ap_snapshot :: session_snapshot
  ap_events :: "control_plane_event list"
  ap_sinks :: "'k list"
  ap_outbound :: "nat option"
  ap_speedtest_counter :: "nat option"
  ap_pending :: "nat pending_media_bindings"
  ap_sessions :: "'k app_session list"

text \<open>\<open>AppCore::start\<close>, given the random bytes of the token and the bound ports.\<close>

definition app_start :: "string \<Rightarrow> bytes \<Rightarrow> u16 \<Rightarrow> u16 \<Rightarrow> 'k app_handle" where
  "app_start host token_bytes cport mport =
     \<lparr> ap_qr = \<lparr> qr_v = 1, qr_host = host, qr_cport = cport, qr_mport = mport,
                 qr_token = base64_url token_bytes \<rparr>,
       ap_snapshot = \<lparr> sn_state = Listening cport mport, sn_device = None, sn_last_telemetry = None \<rparr>,
       ap_events = [], ap_sinks = [], ap_outbound = None, ap_speedtest_counter = None,
       ap_pending = Map.empty, ap_sessions = [] \<rparr>"

definition register_sink :: "'k \<Rightarrow> 'k app_handle \<Rightarrow> 'k app_handle" where
  "register_sink sink app = app\<lparr>ap_sinks := ap_sinks app @ [sink]\<rparr>"

definition set_state :: "session_state_kind \<Rightarrow> 'k app_handle \<Rightarrow> 'k app_handle" where
  "set_state st app = app\<lparr>ap_snapshot := (ap_snapshot app)\<lparr>sn_state := st\<rparr>\<rparr>"

definition server_caps :: "capability list" where
  "server_caps = [Hevc, H264, RawNv12]"

section \<open>Starting a session\<close>

text \<open>The channels and tasks both paths create for an accepted session: a telemetry channel of
  16, the driver in the default mode, the control plane over the shared snapshot and events.\<close>

definition new_session ::
    "transport_tag \<Rightarrow> accepted_session \<Rightarrow> control_stream \<Rightarrow> instant \<Rightarrow> 'k app_handle \<Rightarrow> 'k app_session" where
  "new_session tag acc control now app =
     \<lparr> se_id = ac_session_id acc, se_token = ac_token acc,
       se_cp = cp_start tag control (ap_snapshot app) (ap_events app)
                 (Some \<lparr> tc_queue = [], tc_capacity = 16, tc_closed = False \<rparr>) now,
       se_flow = Continue, se_out = [],
       se_driver = driver_new [] default_streaming_1080p30 now,
       se_inbox = None, se_media = None, se_media_done = False \<rparr>"

text \<open>The session joins the application: its control plane publishes, and it takes the
  outbound slot.\<close>

definition add_session :: "'k app_session \<Rightarrow> 'k app_handle \<Rightarrow> 'k app_handle" where
  "add_session se app =
     app\<lparr>ap_snapshot := cp_snapshot (se_cp se), ap_events := cp_events (se_cp se),
         ap_outbound := Some (length (ap_sessions app)),
         ap_sessions := ap_sessions app @ [se]\<rparr>"

text \<open>The accept loop's arm for a control connection.\<close>

definition app_wifi_control ::
    "json_text \<Rightarrow> string \<Rightarrow> instant \<Rightarrow> control_stream \<Rightarrow> 'k app_handle \<Rightarrow> 'k app_handle" where
  "app_wifi_control J uuid now cs app =
     (let app1 = set_state WifiHandshake app in
      case accept_control J uuid (qr_token (ap_qr app)) server_caps cs of
        (Inr acc, cs') \<Rightarrow>
          let app2 = app1\<lparr>ap_pending := bindings_insert (ac_session_id acc) (ac_token acc)
                            (length (ap_sessions app)) (ap_pending app)\<rparr>
          in add_session (new_session TagWifi acc cs' now app2) app2
      | (Inl e, cs') \<Rightarrow> set_state (Listening 0 0) app1)"

definition update_session :: "nat \<Rightarrow> ('k app_session \<Rightarrow> 'k app_session) \<Rightarrow> 'k app_handle \<Rightarrow> 'k app_handle" where
  "update_session n f app =
     (if n < length (ap_sessions app)
      then app\<lparr>ap_sessions := (ap_sessions app)[n := f (ap_sessions app ! n)]\<rparr> else app)"

text \<open>The accept loop's arm for a media connection.\<close>

definition app_wifi_media :: "json_text \<Rightarrow> media_stream \<Rightarrow> 'k app_handle \<Rightarrow> 'k app_handle" where
  "app_wifi_media J ms app =
     (case read_media_hello J ms of
        (Inl e, ms') \<Rightarrow> app
      | (Inr b, ms') \<Rightarrow>
          (case bindings_take (mb_session_id b) (mb_token b) (ap_pending app) of
             (None, pending') \<Rightarrow> app
           | (Some n, pending') \<Rightarrow>
               update_session n (\<lambda>se. se\<lparr>se_inbox := Some ms'\<rparr>)
                 (app\<lparr>ap_pending := pending'\<rparr>)))"

text \<open>The spawned task that waits for the media stream and starts the pipeline.\<close>

definition app_media_attach :: "nat \<Rightarrow> 'k app_handle \<Rightarrow> 'k app_handle" where
  "app_media_attach n app =
     (if n < length (ap_sessions app) then
        case se_inbox (ap_sessions app ! n) of
          None \<Rightarrow> app
        | Some ms \<Rightarrow>
            update_session n
              (\<lambda>se. se\<lparr>se_inbox := None,
                      se_media := Some (ms, \<lparr> pl_sinks = ap_sinks app, pl_decoder = (),
                                              pl_counter = Some counter_new \<rparr>)\<rparr>)
              (app\<lparr>ap_speedtest_counter := Some n\<rparr>)
      else app)"

text \<open>The USB consumer's body for one dialled device.\<close>

definition app_usb_dialed ::
    "pairing_codec \<Rightarrow> json_text \<Rightarrow> string \<Rightarrow> instant \<Rightarrow> pairing_store \<Rightarrow> dialed_streams
     \<Rightarrow> 'k app_handle \<Rightarrow> 'k app_handle" where
  "app_usb_dialed C J uuid now store dialed app =
     (let app1 = set_state (UsbHandshake (dl_udid dialed)) app in
      case store_get C (dl_udid dialed) store of
        Inl e \<Rightarrow> app1
      | Inr None \<Rightarrow>
          set_state Idle (app1\<lparr>ap_events := ap_events app1 @ [EvUsbTrustRequest (dl_udid dialed)]\<rparr>)
      | Inr (Some k) \<Rightarrow>
          (case accept_control_usb J uuid (as_b64 C k) server_caps (dl_control dialed) of
             (Inl e, cs') \<Rightarrow> set_state Idle app1
           | (Inr acc, cs') \<Rightarrow>
               (case read_media_hello J (dl_media dialed) of
                  (Inl e, media) \<Rightarrow> app1\<lparr>ap_speedtest_counter := None, ap_outbound := None\<rparr>
                | (Inr b, media) \<Rightarrow>
                    let n = length (ap_sessions app1);
                        se = new_session TagUsb acc cs' now app1
                    in (add_session
                         (se\<lparr>se_media := Some (media, \<lparr> pl_sinks = ap_sinks app1, pl_decoder = (),
                                                       pl_counter = Some counter_new \<rparr>)\<rparr>)
                         app1)\<lparr>ap_speedtest_counter := Some n\<rparr>)))"

section \<open>Running sessions\<close>

text \<open>A branch of the control plane's loop; \<open>BrOutbound\<close> takes the head of the queue.\<close>

datatype branch = BrOutbound | BrTick instant u64 | BrRecv instant u64

text \<open>A session's control plane sees the shared snapshot and events.\<close>

definition load_shared :: "'k app_handle \<Rightarrow> control_plane \<Rightarrow> control_plane" where
  "load_shared app cp = cp\<lparr>cp_snapshot := ap_snapshot app, cp_events := ap_events app\<rparr>"

definition run_branch ::
    "json_text \<Rightarrow> bool \<Rightarrow> branch \<Rightarrow> 'k app_session \<Rightarrow> control_plane \<Rightarrow> (cp_flow \<times> control_plane \<times> control_message list) option" where
  "run_branch J polled br se cp =
     (case br of
        BrOutbound \<Rightarrow>
          (case se_out se of
             [] \<Rightarrow> None
           | msg # rest \<Rightarrow>
               (case cp_outbound J (Some msg) (drop_recv J polled cp) of (f, cp') \<Rightarrow> Some (f, cp', rest)))
      | BrTick now usec \<Rightarrow>
          (case cp_tick J now usec (drop_recv J polled cp) of (f, cp') \<Rightarrow> Some (f, cp', se_out se))
      | BrRecv now usec \<Rightarrow>
          map_option (\<lambda>(f, cp'). (f, cp', se_out se)) (cp_recv J now usec cp))"

definition app_session_step :: "json_text \<Rightarrow> nat \<Rightarrow> bool \<Rightarrow> branch \<Rightarrow> 'k app_handle \<Rightarrow> 'k app_handle" where
  "app_session_step J n polled br app =
     (if n < length (ap_sessions app) \<and> se_flow (ap_sessions app ! n) = Continue then
        let se = ap_sessions app ! n in
        case run_branch J polled br se (load_shared app (se_cp se)) of
          None \<Rightarrow> app
        | Some (f, cp', out') \<Rightarrow>
            update_session n (\<lambda>se. se\<lparr>se_cp := cp', se_flow := f, se_out := out'\<rparr>)
              (app\<lparr>ap_snapshot := cp_snapshot cp', ap_events := cp_events cp'\<rparr>)
      else app)"

text \<open>Bytes of the phone arrive on a session's control socket.\<close>

definition app_deliver :: "nat \<Rightarrow> bytes \<Rightarrow> bool \<Rightarrow> 'k app_handle \<Rightarrow> 'k app_handle" where
  "app_deliver n bs eof app = update_session n (\<lambda>se. se\<lparr>se_cp := deliver bs eof (se_cp se)\<rparr>) app"

text \<open>After the control plane returned, its task clears the two slots.\<close>

definition app_session_cleanup :: "nat \<Rightarrow> 'k app_handle \<Rightarrow> 'k app_handle" where
  "app_session_cleanup n app =
     (if n < length (ap_sessions app) \<and> se_flow (ap_sessions app ! n) = Returned
      then app\<lparr>ap_outbound := None, ap_speedtest_counter := None\<rparr> else app)"

text \<open>The driver task: one telemetry sample, with the round-trip time 0.0.\<close>

definition session_driver_step :: "instant \<Rightarrow> 'k app_session \<Rightarrow> 'k app_session" where
  "session_driver_step now se =
     (case cp_telemetry_tx (se_cp se) of
        None \<Rightarrow> se
      | Some chan \<Rightarrow>
          (case tc_queue chan of
             [] \<Rightarrow> se
           | t # ts \<Rightarrow>
               let d = driver_observe t (Fin 0) now ((se_driver se)\<lparr>dr_outbound := se_out se\<rparr>)
               in se\<lparr>se_cp := (se_cp se)\<lparr>cp_telemetry_tx := Some (chan\<lparr>tc_queue := ts\<rparr>)\<rparr>,
                     se_driver := d, se_out := dr_outbound d\<rparr>))"

definition app_driver_step :: "nat \<Rightarrow> instant \<Rightarrow> 'k app_handle \<Rightarrow> 'k app_handle" where
  "app_driver_step n now app = update_session n (session_driver_step now) app"

text \<open>The pipeline task: all records the media socket holds once \<open>bs\<close> arrived, until the task
  ends.\<close>

definition session_media_step :: "('k \<Rightarrow> frame_rec \<Rightarrow> 'k) \<Rightarrow> bytes \<Rightarrow> 'k app_session \<Rightarrow> 'k app_session" where
  "session_media_step submit bs se =
     (case se_media se of
        None \<Rightarrow> se
      | Some (ms, p) \<Rightarrow>
          if se_media_done se then se
          else
            (case pipeline_loop submit passthrough_decode (arrive bs ms) p of
               (e, ms2, p2) \<Rightarrow> se\<lparr>se_media := Some (ms2, p2), se_media_done := (e \<noteq> Waiting)\<rparr>))"

definition app_media_step :: "('k \<Rightarrow> frame_rec \<Rightarrow> 'k) \<Rightarrow> nat \<Rightarrow> bytes \<Rightarrow> 'k app_handle \<Rightarrow> 'k app_handle" where
  "app_media_step submit n bs app = update_session n (session_media_step submit bs) app"

section \<open>Commands of the user interface\<close>

datatype app_error = NoActiveSession | ChannelClosed

definition push_outbound :: "control_message \<Rightarrow> nat \<Rightarrow> 'k app_handle \<Rightarrow> (app_error + unit) \<times> 'k app_handle" where
  "push_outbound msg n app =
     (if n < length (ap_sessions app) \<and> se_flow (ap_sessions app ! n) = Continue
      then (Inr (), update_session n (\<lambda>se. se\<lparr>se_out := se_out se @ [msg]\<rparr>) app)
      else (Inl ChannelClosed, app))"

definition set_camera :: "string \<Rightarrow> 'k app_handle \<Rightarrow> (app_error + unit) \<times> 'k app_handle" where
  "set_camera camera_id app =
     (case ap_outbound app of
        None \<Rightarrow> (Inl NoActiveSession, app)
      | Some n \<Rightarrow> push_outbound (SetCamera \<lparr> sc_camera_id = camera_id \<rparr>) n app)"

record speedtest_outcome =
  so_measurement :: measurement
  so_recommended :: mode

definition default_iphone_caps :: "available_mode list" where
  "default_iphone_caps =
     map (\<lambda>(w, h, f). \<lparr> am_width = w, am_height = h, am_fps = f, am_caps = [Hevc, H264, RawNv12] \<rparr>)
       [(1280, 720, 30), (1280, 720, 60), (1920, 1080, 30), (1920, 1080, 60)]"

definition default_limits :: user_limits where
  "default_limits = \<lparr> ul_max_width = None, ul_max_height = None, ul_max_fps = None,
     ul_prefer_raw = False \<rparr>"

text \<open>The modes the cameras of a snapshot allow.\<close>

definition snapshot_caps :: "session_snapshot \<Rightarrow> available_mode list" where
  "snapshot_caps snap =
     (let cameras = (case sn_device snap of Some d \<Rightarrow> ds_cameras d | None \<Rightarrow> [])
      in if cameras = [] then default_iphone_caps
         else map (\<lambda>c. \<lparr> am_width = ce_max_width c, am_height = ce_max_height c, am_fps = ce_max_fps c,
                         am_caps = [Hevc, H264, RawNv12] \<rparr>) cameras)"

definition session_counter :: "nat \<Rightarrow> 'k app_handle \<Rightarrow> speedtest_counter" where
  "session_counter n app =
     (if n < length (ap_sessions app) then
        (case se_media (ap_sessions app ! n) of
           Some (ms, p) \<Rightarrow> (case pl_counter p of Some c \<Rightarrow> c | None \<Rightarrow> [])
         | None \<Rightarrow> [])
      else [])"

definition drain_counter :: "nat \<Rightarrow> 'k app_handle \<Rightarrow> speedtest_arrival list \<times> 'k app_handle" where
  "drain_counter n app =
     (session_counter n app,
      update_session n (\<lambda>se. se\<lparr>se_media := map_option (\<lambda>(ms, p). (ms, p\<lparr>pl_counter :=
         map_option (\<lambda>c. snd (counter_drain c)) (pl_counter p)\<rparr>)) (se_media se)\<rparr>) app)"

definition speedtest_start_msg :: control_message where
  "speedtest_start_msg =
     (let plan = default_ramp;
          max_kbps = (if sp_steps_kbps plan = [] then 800000 else last (sp_steps_kbps plan));
          total = (case total_duration plan of Some d \<Rightarrow> d | None \<Rightarrow> 0)
      in SpeedtestStart \<lparr> ss_id = ''ramp-1'', ss_target_bitrate_kbps = ucast max_kbps,
           ss_duration_ms = word_of_nat (as_millis total), ss_pattern = Ramp \<rparr>)"

text \<open>\<open>run_speedtest\<close> up to its wait: the stale arrivals are dropped and the ramp is asked for.
  \<open>Inr (Some n)\<close>: wait on the counter of session \<open>n\<close>; \<open>Inr None\<close>: no live session.\<close>

definition speedtest_begin :: "'k app_handle \<Rightarrow> (app_error + nat option) \<times> 'k app_handle" where
  "speedtest_begin app =
     (case (ap_outbound app, ap_speedtest_counter app) of
        (Some out, Some cnt) \<Rightarrow>
          (let app1 = snd (drain_counter cnt app)
           in case push_outbound speedtest_start_msg out app1 of
                (Inl e, app2) \<Rightarrow> (Inl e, app2)
              | (Inr _, app2) \<Rightarrow> (Inr (Some cnt), app2))
      | _ \<Rightarrow> (Inr None, app))"

definition ramp_observations :: "speedtest_arrival list \<Rightarrow> step_observation list" where
  "ramp_observations arrivals =
     map (\<lambda>(i, target). \<lparr> so_target_kbps = target,
            so_received_bytes = bytes_for_step (word_of_nat i) arrivals,
            so_duration = sp_step_duration default_ramp, so_avg_rtt_ms = Fin 0 \<rparr>)
       (enumerate 0 (sp_steps_kbps default_ramp))"

definition recommend :: "measurement \<Rightarrow> available_mode list \<Rightarrow> speedtest_outcome" where
  "recommend meas caps =
     \<lparr> so_measurement = meas, so_recommended = select_mode meas caps TcWiFi default_limits \<rparr>"

text \<open>\<open>run_speedtest\<close> after the wait, with the modes read before it.\<close>

definition speedtest_finish ::
    "nat \<Rightarrow> available_mode list \<Rightarrow> 'k app_handle \<Rightarrow> speedtest_outcome \<times> 'k app_handle" where
  "speedtest_finish cnt caps app =
     (let (arrivals, app') = drain_counter cnt app
      in (recommend (evaluate (ramp_observations arrivals) (Fin 0)) caps, app'))"

text \<open>\<open>run_speedtest\<close> without a live session: the last telemetry stands in for a measurement.\<close>

definition speedtest_fallback :: "session_snapshot \<Rightarrow> speedtest_outcome" where
  "speedtest_fallback snap =
     (let goodput = (case sn_last_telemetry snap of
                       Some t \<Rightarrow> f64_of_int (uint (tm_sent_bitrate_kbps t)) / Fin 1000
                     | None \<Rightarrow> Fin 50)
      in recommend \<lparr> me_goodput_mbps = f64_max goodput (Fin 10), me_rtt_ms = Fin 5,
                     me_jitter_ms = Fin 1, me_loss_pct = Fin 0 \<rparr> (snapshot_caps snap))"

section \<open>Interleavings\<close>

text \<open>Everything that can happen to the application between two observations.\<close>

inductive app_step :: "json_text \<Rightarrow> pairing_codec \<Rightarrow> ('k \<Rightarrow> frame_rec \<Rightarrow> 'k) \<Rightarrow> 'k app_handle \<Rightarrow> 'k app_handle \<Rightarrow> bool"
  for J :: json_text and C :: pairing_codec and submit :: "'k \<Rightarrow> frame_rec \<Rightarrow> 'k" where
  wifi_control: "app_step J C submit app (app_wifi_control J uuid now cs app)"
| wifi_media: "app_step J C submit app (app_wifi_media J ms app)"
| media_attach: "app_step J C submit app (app_media_attach n app)"
| usb_dialed: "app_step J C submit app (app_usb_dialed C J uuid now store dl app)"
| session_step: "app_step J C submit app (app_session_step J n polled br app)"
| bytes_arrive: "app_step J C submit app (app_deliver n bs eof app)"
| cleanup: "app_step J C submit app (app_session_cleanup n app)"
| driver: "app_step J C submit app (app_driver_step n now app)"
| media: "app_step J C submit app (app_media_step submit n bs app)"
| camera: "app_step J C submit app (snd (set_camera i app))"
| sink: "app_step J C submit app (register_sink k app)"
| speedtest: "app_step J C submit app (snd (speedtest_begin app))"
| speedtest_end: "app_step J C submit app (snd (speedtest_finish n caps app))"

inductive app_run :: "json_text \<Rightarrow> pairing_codec \<Rightarrow> ('k \<Rightarrow> frame_rec \<Rightarrow> 'k) \<Rightarrow> 'k app_handle \<Rightarrow> 'k app_handle \<Rightarrow> bool"
  for J C submit app0 where
  run_init: "app_run J C submit app0 app0"
| run_step: "app_run J C submit app0 app \<Longrightarrow> app_step J C submit app app' \<Longrightarrow> app_run J C submit app0 app'"

end
