(* ===== verification/App_Admission.thy ===== *)
theory App_Admission
  imports App_Core
begin

text \<open>
  What the application core promises about admission. The specification is a gate: a list of
  admitted sessions with their credential and whether media reached them, and the pending
  bindings. The core implements it: every step of every interleaving is a step of the gate or
  leaves it alone. From the gate's invariant follow the safety properties of the core: a media
  socket reaches a session only with that session's id and token and only once, and a session
  exists only for a peer that presented its credential.
\<close>

section \<open>Simulation\<close>

text \<open>A concrete step relation that implements an abstract one under an abstraction function,
  where the abstract system has an invariant to rely on. The client gets that every concrete
  run is an abstract run and that the invariant holds along it.\<close>

locale simulation =
  fixes cstep :: "'c \<Rightarrow> 'c \<Rightarrow> bool" and astep :: "'a \<Rightarrow> 'a \<Rightarrow> bool"
    and abs :: "'c \<Rightarrow> 'a" and ainv :: "'a \<Rightarrow> bool"
  assumes sim_step: "cstep c c' \<Longrightarrow> ainv (abs c) \<Longrightarrow> astep (abs c) (abs c')"
    and inv_step: "astep a a' \<Longrightarrow> ainv a \<Longrightarrow> ainv a'"
begin

lemma run_simulated: "cstep\<^sup>*\<^sup>* c c' \<Longrightarrow> ainv (abs c) \<Longrightarrow> astep\<^sup>*\<^sup>* (abs c) (abs c') \<and> ainv (abs c')"
  by (induction rule: rtranclp_induct) (auto intro: rtranclp.rtrancl_into_rtrancl sim_step inv_step)

end

section \<open>The gate\<close>

record gate_session =
  gs_id :: string
  gs_token :: string
  gs_transport :: transport_tag
  gs_media :: bool

record gate =
  g_token :: string
  g_pending :: "(string \<times> string) \<rightharpoonup> nat"
  g_sessions :: "gate_session list"

definition gate_start :: "string \<Rightarrow> gate" where
  "gate_start token = \<lparr> g_token = token, g_pending = Map.empty, g_sessions = [] \<rparr>"

definition admit :: "string \<Rightarrow> string \<Rightarrow> transport_tag \<Rightarrow> bool \<Rightarrow> gate \<Rightarrow> gate" where
  "admit sid token tag media g = g\<lparr>g_sessions := g_sessions g @
     [\<lparr> gs_id = sid, gs_token = token, gs_transport = tag, gs_media = media \<rparr>]\<rparr>"

text \<open>A Wi-Fi peer is admitted with the gate's token and awaits its media socket; a USB peer
  is admitted with a paired key and brings its media socket along; a media socket binds to the
  session that waits under exactly the pair it presents.\<close>

inductive gate_step :: "string set \<Rightarrow> gate \<Rightarrow> gate \<Rightarrow> bool" for keys :: "string set" where
  idle: "gate_step keys g g"
| admit_wifi: "gate_step keys g (admit sid (g_token g) TagWifi False
    (g\<lparr>g_pending := (g_pending g)((sid, g_token g) \<mapsto> length (g_sessions g))\<rparr>))"
| admit_usb: "key \<in> keys \<Longrightarrow> gate_step keys g (admit sid key TagUsb True g)"
| bind_media: "g_pending g (sid, token) = Some n \<Longrightarrow> gate_step keys g
    (g\<lparr>g_pending := (g_pending g)((sid, token) := None),
       g_sessions := (g_sessions g)[n := (g_sessions g ! n)\<lparr>gs_media := True\<rparr>]\<rparr>)"

text \<open>What waits under a pair is the Wi-Fi session with that id and token, without media; and
  every session holds the credential of its transport.\<close>

definition waiting_ok :: "gate \<Rightarrow> string \<times> string \<Rightarrow> nat \<Rightarrow> bool" where
  "waiting_ok g k n \<longleftrightarrow> n < length (g_sessions g) \<and>
     (gs_id (g_sessions g ! n), gs_token (g_sessions g ! n)) = k \<and>
     gs_transport (g_sessions g ! n) = TagWifi \<and> \<not> gs_media (g_sessions g ! n)"

definition credential_ok :: "string \<Rightarrow> string set \<Rightarrow> gate_session \<Rightarrow> bool" where
  "credential_ok token keys s \<longleftrightarrow>
     (case gs_transport s of TagWifi \<Rightarrow> gs_token s = token | TagUsb \<Rightarrow> gs_token s \<in> keys)"

definition gate_inv :: "string set \<Rightarrow> gate \<Rightarrow> bool" where
  "gate_inv keys g \<longleftrightarrow> (\<forall>k n. g_pending g k = Some n \<longrightarrow> waiting_ok g k n) \<and>
     (\<forall>s \<in> set (g_sessions g). credential_ok (g_token g) keys s)"

lemma gate_inv_waiting: "gate_inv keys g \<Longrightarrow> g_pending g k = Some n \<Longrightarrow> waiting_ok g k n"
  unfolding gate_inv_def by blast

lemma gate_inv_start: "gate_inv keys (gate_start token)"
  by (simp add: gate_inv_def gate_start_def)

lemma waiting_ok_admit: "waiting_ok g k n \<Longrightarrow> waiting_ok (admit sid token tag media (g\<lparr>g_pending := p\<rparr>)) k n"
  by (simp add: waiting_ok_def admit_def nth_append)

lemma gate_inv_bind:
  assumes inv: "gate_inv keys g" and pend: "g_pending g (sid, token) = Some n"
  shows "gate_inv keys (g\<lparr>g_pending := (g_pending g)((sid, token) := None),
    g_sessions := (g_sessions g)[n := (g_sessions g ! n)\<lparr>gs_media := True\<rparr>]\<rparr>)"
proof -
  let ?g = "g\<lparr>g_pending := (g_pending g)((sid, token) := None),
       g_sessions := (g_sessions g)[n := (g_sessions g ! n)\<lparr>gs_media := True\<rparr>]\<rparr>"
  have n: "waiting_ok g (sid, token) n" using inv pend by (simp add: gate_inv_def)
  have "waiting_ok ?g k m" if "g_pending ?g k = Some m" for k m
  proof -
    from that have "k \<noteq> (sid, token)" "g_pending g k = Some m" by (auto split: if_splits)
    then have "k \<noteq> (sid, token)" "waiting_ok g k m" using gate_inv_waiting [OF inv] by simp_all
    then have "waiting_ok g k m" "m \<noteq> n" using n unfolding waiting_ok_def by metis+
    then show ?thesis by (simp add: waiting_ok_def)
  qed
  moreover have "credential_ok (g_token g) keys (g_sessions g ! n)"
    using n inv by (simp add: gate_inv_def waiting_ok_def)
  then have "credential_ok (g_token g) keys ((g_sessions g ! n)\<lparr>gs_media := True\<rparr>)"
    by (cases "gs_transport (g_sessions g ! n)") (simp_all add: credential_ok_def)
  then have "credential_ok (g_token g) keys s" if "s \<in> set (g_sessions ?g)" for s
    using that inv set_update_subset_insert [of "g_sessions g" n] unfolding gate_inv_def
    by fastforce
  ultimately show ?thesis by (auto simp: gate_inv_def)
qed

lemma gate_inv_step: "gate_step keys g g' \<Longrightarrow> gate_inv keys g \<Longrightarrow> gate_inv keys g'"
proof (induction rule: gate_step.induct)
  case (admit_wifi g sid)
  let ?g = "admit sid (g_token g) TagWifi False
    (g\<lparr>g_pending := (g_pending g)((sid, g_token g) \<mapsto> length (g_sessions g))\<rparr>)"
  have "waiting_ok ?g k n" if "g_pending ?g k = Some n" for k n
  proof (cases "k = (sid, g_token g)")
    case True
    then show ?thesis using that by (auto simp: admit_def waiting_ok_def)
  next
    case False
    then have "g_pending g k = Some n" using that by (simp add: admit_def)
    then have "waiting_ok g k n" using gate_inv_waiting [OF admit_wifi] by simp
    then show ?thesis by (rule waiting_ok_admit)
  qed
  then show ?case using admit_wifi by (auto simp: gate_inv_def admit_def credential_ok_def)
next
  case (admit_usb key g sid)
  have "waiting_ok (admit sid key TagUsb True g) k n" if "g_pending g k = Some n" for k n
  proof -
    have "waiting_ok g k n" using that gate_inv_waiting [OF admit_usb(2)] by simp
    then show ?thesis using waiting_ok_admit [of g k n sid key TagUsb True "g_pending g"] by simp
  qed
  then show ?case using admit_usb by (auto simp: gate_inv_def admit_def credential_ok_def)
next
  case (bind_media g sid token n)
  then show ?case using gate_inv_bind by blast
qed

section \<open>The core implements the gate\<close>

definition gate_session_of :: "'k app_session \<Rightarrow> gate_session" where
  "gate_session_of se = \<lparr> gs_id = se_id se, gs_token = se_token se,
     gs_transport = cp_transport (se_cp se),
     gs_media = (se_inbox se \<noteq> None \<or> se_media se \<noteq> None) \<rparr>"

definition gate_of :: "'k app_handle \<Rightarrow> gate" where
  "gate_of app = \<lparr> g_token = qr_token (ap_qr app), g_pending = ap_pending app,
     g_sessions = map gate_session_of (ap_sessions app) \<rparr>"

definition paired_keys :: "pairing_codec \<Rightarrow> string set" where
  "paired_keys C = {as_b64 C k | k udid store. store_get C udid store = Inr (Some k)}"

lemma gate_of_fields [simp]:
  "gate_of (app\<lparr>ap_snapshot := sn\<rparr>) = gate_of app" "gate_of (app\<lparr>ap_events := ev\<rparr>) = gate_of app"
  "gate_of (app\<lparr>ap_sinks := ks\<rparr>) = gate_of app" "gate_of (app\<lparr>ap_outbound := so\<rparr>) = gate_of app"
  "gate_of (app\<lparr>ap_speedtest_counter := sc\<rparr>) = gate_of app" "gate_of (set_state st app) = gate_of app"
  by (simp_all add: gate_of_def set_state_def)

lemma gate_of_update_session:
  assumes "\<And>se. gate_session_of (f se) = gate_session_of se"
  shows "gate_of (update_session n f app) = gate_of app"
proof -
  have "map gate_session_of (xs[n := f (xs ! n)]) = map gate_session_of xs" if "n < length xs" for xs
    using that assms by (simp add: map_update list_update_same_conv)
  then show ?thesis by (simp add: gate_of_def update_session_def)
qed

text \<open>The transport of a control plane never changes.\<close>

lemma sends_one_transport: "sends_one J cp f cp' \<Longrightarrow> cp_transport cp' = cp_transport cp"
  by (rule sends_one_fields(4))

lemma cp_handle_transport:
  assumes "cp_handle J usec env cp = (f, cp')"
  shows "cp_transport cp' = cp_transport cp"
  using cp_handle_Ping [OF _ assms] cp_handle_other(4) [OF _ assms] sends_one_transport by blast

interpretation tags: cp_invariant J "\<lambda>_ cp. cp_transport cp = tag" for J tag
proof
  show "cp_transport cp' = tag" if "cp_transport cp = tag" "cp_recv J now usec cp = Some (f, cp')"
    for cp now usec f cp'
    using that(2) by (cases rule: cp_recv_cases) (use that(1) cp_handle_transport in force)+
  show "cp_transport cp' = tag" if "cp_transport cp = tag" "cp_outbound J msg cp = (f, cp')"
    for cp msg f cp'
    using cp_outbound_cases [OF that(2)] sends_one_transport that(1) by blast
  show "cp_transport cp' = tag" if "cp_transport cp = tag" "cp_tick J now usec cp = (f, cp')"
    for cp now usec f cp'
    using cp_tick_cases [OF that(2)] sends_one_transport that(1) by blast
qed simp_all

lemma run_branch_transport:
  assumes "run_branch J polled br se cp = Some (f, cp', out')"
  shows "cp_transport cp' = cp_transport cp"
proof (cases br)
  case BrOutbound
  then show ?thesis using assms tags.inv_outbound [of "drop_recv J polled cp" _ J _ f cp']
    by (auto simp: run_branch_def split: list.splits prod.splits)
next
  case (BrTick now usec)
  then show ?thesis using assms tags.inv_tick [of "drop_recv J polled cp" _ J now usec f cp']
    by (auto simp: run_branch_def split: prod.splits)
next
  case (BrRecv now usec)
  then have "cp_recv J now usec cp = Some (f, cp')" using assms by (auto simp: run_branch_def)
  then show ?thesis using tags.inv_recv by blast
qed

text \<open>The steps that admit nobody.\<close>

lemma gate_of_session_step: "gate_of (app_session_step J n polled br app) = gate_of app"
proof (cases "n < length (ap_sessions app) \<and> se_flow (ap_sessions app ! n) = Continue")
  case True
  let ?se = "ap_sessions app ! n"
  show ?thesis
  proof (cases "run_branch J polled br ?se (load_shared app (se_cp ?se))")
    case None
    then show ?thesis using True by (simp add: app_session_step_def Let_def)
  next
    case (Some r)
    obtain f cp' out' where r: "r = (f, cp', out')" by (cases r)
    have "cp_transport cp' = cp_transport (se_cp ?se)"
      using run_branch_transport Some r by (force simp: load_shared_def)
    then show ?thesis using True Some r
      by (simp add: app_session_step_def Let_def update_session_def gate_of_def map_update
          gate_session_of_def list_update_same_conv)
  qed
qed (auto simp: app_session_step_def)

lemma gate_of_push [simp]: "gate_of (snd (push_outbound msg n app)) = gate_of app"
  by (simp add: push_outbound_def gate_of_update_session gate_session_of_def)

lemma gate_of_drain [simp]: "gate_of (snd (drain_counter n app)) = gate_of app"
  by (auto simp: drain_counter_def gate_session_of_def intro!: gate_of_update_session)

lemma gate_of_speedtest: "gate_of (snd (speedtest_begin app)) = gate_of app"
proof -
  have "gate_of b = gate_of app" if "push_outbound m k (snd (drain_counter n app)) = (r, b)" for m k n r b
    using gate_of_push [of m k "snd (drain_counter n app)"] that by simp
  then show ?thesis
    by (auto simp: speedtest_begin_def Let_def split: option.split prod.split sum.split)
qed

lemma gate_of_attach: "gate_of (app_media_attach n app) = gate_of app"
  by (auto simp: app_media_attach_def update_session_def gate_of_def map_update gate_session_of_def
      list_update_same_conv split: option.split)

lemma gate_of_quiet:
  "gate_of (app_deliver n bs eof app) = gate_of app"
  "gate_of (app_session_cleanup n app) = gate_of app"
  "gate_of (app_driver_step n now app) = gate_of app"
  "gate_of (app_media_step submit n bs app) = gate_of app"
  "gate_of (snd (set_camera i app)) = gate_of app"
  "gate_of (register_sink k app) = gate_of app"
  "gate_of (snd (speedtest_finish n caps app)) = gate_of app"
  by (auto simp: app_deliver_def app_session_cleanup_def app_driver_step_def session_driver_step_def
      app_media_step_def session_media_step_def set_camera_def register_sink_def speedtest_finish_def
      gate_session_of_def Let_def gate_of_update_session drain_counter_def
      intro!: gate_of_update_session split: option.split list.split prod.split)

text \<open>The steps that do.\<close>

lemma gate_of_add_session:
  "gate_of (add_session se app) = (gate_of app)\<lparr>g_sessions := g_sessions (gate_of app) @ [gate_session_of se]\<rparr>"
  by (simp add: add_session_def gate_of_def)

lemma gate_session_of_new:
  "gate_session_of (new_session tag acc control now app) =
     \<lparr> gs_id = ac_session_id acc, gs_token = ac_token acc, gs_transport = tag, gs_media = False \<rparr>"
  "gate_session_of ((new_session tag acc control now app)\<lparr>se_media := Some m\<rparr>) =
     \<lparr> gs_id = ac_session_id acc, gs_token = ac_token acc, gs_transport = tag, gs_media = True \<rparr>"
  by (simp_all add: gate_session_of_def new_session_def cp_start_def Let_def)

lemma gate_step_wifi_control: "gate_step keys (gate_of app) (gate_of (app_wifi_control J uuid now cs app))"
proof -
  obtain r cs' where a: "accept_control J uuid (qr_token (ap_qr app)) server_caps cs = (r, cs')"
    by fastforce
  show ?thesis
  proof (cases r)
    case (Inl e)
    then show ?thesis using a by (simp add: app_wifi_control_def Let_def idle)
  next
    case (Inr acc)
    then have "ac_token acc = qr_token (ap_qr app)" using wifi.accept_sound a by blast
    then have "gate_of (app_wifi_control J uuid now cs app) =
      admit (ac_session_id acc) (g_token (gate_of app)) TagWifi False ((gate_of app)\<lparr>g_pending :=
        (g_pending (gate_of app))((ac_session_id acc, g_token (gate_of app)) \<mapsto> length (g_sessions (gate_of app)))\<rparr>)"
      using a Inr
      by (simp add: app_wifi_control_def Let_def gate_of_add_session gate_session_of_new admit_def
          bindings_insert_def) (simp add: gate_of_def set_state_def)
    then show ?thesis by (simp only: admit_wifi)
  qed
qed

lemma gate_step_usb: "gate_step (paired_keys C) (gate_of app) (gate_of (app_usb_dialed C J uuid now store dl app))"
proof -
  let ?admitted = "\<exists>k sid. store_get C (dl_udid dl) store = Inr (Some k) \<and>
      gate_of (app_usb_dialed C J uuid now store dl app) = admit sid (as_b64 C k) TagUsb True (gate_of app)"
  have "gate_of (app_usb_dialed C J uuid now store dl app) = gate_of app \<or> ?admitted"
  proof (cases "store_get C (dl_udid dl) store")
    case (Inr k)
    show ?thesis
    proof (cases k)
      case (Some key)
      obtain r cs' where a: "accept_control_usb J uuid (as_b64 C key) server_caps (dl_control dl) = (r, cs')"
        by fastforce
      obtain h ms where m: "read_media_hello J (dl_media dl) = (h, ms)" by fastforce
      have "ac_token acc = as_b64 C key" if "r = Inr acc" for acc
        using usb.accept_sound a that by blast
      then show ?thesis using Inr Some a m
        by (cases r; cases h) (auto simp: app_usb_dialed_def Let_def gate_of_add_session
            gate_session_of_new admit_def)
    qed (simp add: Inr app_usb_dialed_def Let_def)
  qed (simp add: app_usb_dialed_def Let_def)
  then show ?thesis
    by (elim disjE exE conjE) (simp_all add: idle, force intro: admit_usb simp: paired_keys_def)
qed

lemma gate_step_wifi_media: 
  assumes "gate_inv keys (gate_of app)"
  shows "gate_step keys (gate_of app) (gate_of (app_wifi_media J ms app))"
proof -
  obtain r ms' where h: "read_media_hello J ms = (r, ms')" by fastforce
  show ?thesis
  proof (cases r)
    case (Inl e)
    then show ?thesis using h by (simp add: app_wifi_media_def idle)
  next
    case (Inr b)
    let ?k = "(mb_session_id b, mb_token b)"
    show ?thesis
    proof (cases "ap_pending app ?k")
      case None
      then show ?thesis using h Inr by (simp add: app_wifi_media_def bindings_take_def idle)
    next
      case (Some n)
      then have p: "g_pending (gate_of app) ?k = Some n" by (simp add: gate_of_def)
      then have "n < length (ap_sessions app)"
        using gate_inv_waiting [OF assms] by (simp add: waiting_ok_def gate_of_def)
      then have "gate_of (app_wifi_media J ms app) = (gate_of app)\<lparr>g_pending := (g_pending (gate_of app))(?k := None),
          g_sessions := (g_sessions (gate_of app))[n := (g_sessions (gate_of app) ! n)\<lparr>gs_media := True\<rparr>]\<rparr>"
        using h Inr Some
        by (simp add: app_wifi_media_def bindings_take_def update_session_def gate_of_def map_update
            gate_session_of_def)
      then show ?thesis using bind_media [OF p] by simp
    qed
  qed
qed

lemma app_step_simulates:
  assumes "app_step J C submit app app'" and "gate_inv (paired_keys C) (gate_of app)"
  shows "gate_step (paired_keys C) (gate_of app) (gate_of app')"
  using assms
  by (cases rule: app_step.cases)
    (simp_all add: gate_step_wifi_control gate_step_wifi_media gate_step_usb gate_of_quiet
      gate_of_session_step gate_of_speedtest gate_of_attach idle)

interpretation core: simulation "app_step J C submit" "gate_step (paired_keys C)" gate_of
    "gate_inv (paired_keys C)" for J C submit
  by unfold_locales (auto intro: app_step_simulates gate_inv_step)

lemma app_run_rtranclp: "app_run J C submit app0 app \<Longrightarrow> (app_step J C submit)\<^sup>*\<^sup>* app0 app"
  by (induction rule: app_run.induct) auto

lemma gate_of_start: "gate_of (app_start host token_bytes cport mport) = gate_start (base64_url token_bytes)"
  by (simp add: gate_of_def app_start_def gate_start_def)

lemma started_gate_inv:
  assumes "app_run J C submit (app_start host token_bytes cport mport) app"
  shows "(gate_step (paired_keys C))\<^sup>*\<^sup>* (gate_start (base64_url token_bytes)) (gate_of app)"
    and "gate_inv (paired_keys C) (gate_of app)"
  using core.run_simulated [OF app_run_rtranclp [OF assms]] by (simp_all add: gate_of_start gate_inv_start)

lemma gate_token_fixed: "(gate_step keys)\<^sup>*\<^sup>* g0 g \<Longrightarrow> g_token g = g_token g0"
  by (induction rule: rtranclp_induct) (auto elim!: gate_step.cases simp: admit_def)

text \<open>A media socket that changes a session: the pair it presented was waiting.\<close>

lemma wifi_media_changes:
  assumes "n < length (ap_sessions app)" and "ap_sessions (app_wifi_media J ms app) ! n \<noteq> ap_sessions app ! n"
  obtains b ms' where "read_media_hello J ms = (Inr b, ms')"
    and "ap_pending app (mb_session_id b, mb_token b) = Some n"
    and "ap_sessions (app_wifi_media J ms app) =
      (ap_sessions app)[n := (ap_sessions app ! n)\<lparr>se_inbox := Some ms'\<rparr>]"
    and "ap_pending (app_wifi_media J ms app) = (ap_pending app)((mb_session_id b, mb_token b) := None)"
proof -
  obtain r ms' where h: "read_media_hello J ms = (r, ms')" by fastforce
  obtain b where r: "r = Inr b" using assms h by (cases r) (auto simp: app_wifi_media_def)
  obtain m where p: "ap_pending app (mb_session_id b, mb_token b) = Some m"
    using assms h r by (cases "ap_pending app (mb_session_id b, mb_token b)")
      (auto simp: app_wifi_media_def bindings_take_def)
  have eq: "app_wifi_media J ms app = update_session m (\<lambda>se. se\<lparr>se_inbox := Some ms'\<rparr>)
      (app\<lparr>ap_pending := (ap_pending app)((mb_session_id b, mb_token b) := None)\<rparr>)"
    using h r p by (simp add: app_wifi_media_def bindings_take_def)
  then have "m = n" using assms by (cases "m = n") (auto simp: update_session_def split: if_splits)
  then show thesis using that [of b ms'] h r p eq assms(1) by (simp add: update_session_def)
qed

section \<open>Admission properties\<close>

text \<open>An example core: the peer of the handshake example connects with the token of the QR
  code, then its media socket arrives.\<close>

definition demo_token :: string where
  "demo_token = base64_url [0, 0, 0]"

definition demo_binding :: media_binding where
  "demo_binding = \<lparr> mb_session_id = ''sess-u1'', mb_token = demo_token \<rparr>"

definition demo_wire :: "control_envelope list" where
  "demo_wire = [peer_hello, peer_auth (AuthToken demo_token), hello_ack_envelope 1 [Hevc],
     auth_ok_envelope 2 ''sess-u1'', media_hello_envelope demo_binding]"

definition demo_json :: json_text where
  "demo_json = table_text (map enc_envelope demo_wire)"

definition demo_start :: "unit app_handle" where
  "demo_start = app_start ''192.168.0.2'' [0, 0, 0] 5000 5001"

definition demo_control :: control_stream where
  "demo_control = idle_stream (wire_bytes demo_json peer_hello @
     wire_bytes demo_json (peer_auth (AuthToken demo_token)) @ [])"

definition demo_app :: "unit app_handle" where
  "demo_app = app_wifi_control demo_json ''u1'' 0 demo_control demo_start"

lemma demo_token_eq: "demo_token = ''AAAA''"
  by (simp add: demo_token_def Let_def chunk_word_def sextet_def ALPHABET_def)

lemma demo_wire_carried: "e \<in> set demo_wire \<Longrightarrow> carried demo_json e"
  unfolding demo_json_def
  by (rule carried_table)
    (auto simp: demo_wire_def env_ok_def peer_hello_def peer_hello_body_def peer_auth_def
      hello_ack_envelope_def auth_ok_envelope_def media_hello_envelope_def cap_ok_def cap_from_def)

lemma demo_accept:
  "accept_control demo_json ''u1'' demo_token server_caps demo_control =
   (Inr \<lparr> ac_session_id = ''sess-u1'', ac_token = demo_token, ac_hello = peer_hello_body \<rparr>,
    exchanged demo_json [hello_ack_envelope 1 [Hevc], auth_ok_envelope 2 ''sess-u1''] [] demo_control)"
  using wifi.accept_complete [of demo_json peer_hello peer_hello_body "peer_auth (AuthToken demo_token)"
      demo_token server_caps "''u1''" demo_control "[]"]
  by (simp add: demo_wire_carried demo_wire_def server_caps_def agreed_caps_def peer_hello_body_def
      demo_control_def idle_stream_def PROTO_VER_def)

lemma demo_run: "app_run demo_json C submit demo_start demo_app"
  unfolding demo_app_def by (rule run_step [OF run_init wifi_control])

lemma demo_start_fields [simp]:
  "qr_token (ap_qr demo_start) = demo_token" "ap_sessions demo_start = []" "ap_pending demo_start = Map.empty"
  by (simp_all add: demo_start_def app_start_def demo_token_def del: base64_url.simps)

lemma demo_session:
  "length (ap_sessions demo_app) = 1" "se_id (ap_sessions demo_app ! 0) = ''sess-u1''"
  "se_token (ap_sessions demo_app ! 0) = demo_token" "se_inbox (ap_sessions demo_app ! 0) = None"
  "ap_pending demo_app (''sess-u1'', demo_token) = Some 0" "ap_outbound demo_app = Some 0"
  "se_flow (ap_sessions demo_app ! 0) = Continue" "se_out (ap_sessions demo_app ! 0) = []"
  "cp_transport (se_cp (ap_sessions demo_app ! 0)) = TagWifi"
  using demo_accept
  by (simp_all add: demo_app_def app_wifi_control_def Let_def set_state_def add_session_def
      new_session_def bindings_insert_def cp_start_def)



text \<open>C3. In every reachable state, a media socket that reaches a session presented that
  session's own id and the token of the QR code; the session is a Wi-Fi session that had no
  media yet, no other session changes, and the pair is spent.\<close>

theorem media_reaches_its_session:
  assumes "app_run J C submit (app_start host token_bytes cport mport) app"
    and "n < length (ap_sessions app)"
    and "ap_sessions (app_wifi_media J ms app) ! n \<noteq> ap_sessions app ! n"
  shows "\<exists>b ms'. read_media_hello J ms = (Inr b, ms') \<and>
      mb_session_id b = se_id (ap_sessions app ! n) \<and>
      mb_token b = base64_url token_bytes \<and> se_token (ap_sessions app ! n) = base64_url token_bytes \<and>
      cp_transport (se_cp (ap_sessions app ! n)) = TagWifi \<and>
      se_inbox (ap_sessions app ! n) = None \<and> se_media (ap_sessions app ! n) = None \<and>
      ap_sessions (app_wifi_media J ms app) =
        (ap_sessions app)[n := (ap_sessions app ! n)\<lparr>se_inbox := Some ms'\<rparr>] \<and>
      ap_pending (app_wifi_media J ms app) (mb_session_id b, mb_token b) = None"
proof -
  let ?se = "ap_sessions app ! n"
  note gate = started_gate_inv [OF assms(1)]
  obtain b ms' where h: "read_media_hello J ms = (Inr b, ms')"
    and p: "ap_pending app (mb_session_id b, mb_token b) = Some n"
    and s: "ap_sessions (app_wifi_media J ms app) = (ap_sessions app)[n := ?se\<lparr>se_inbox := Some ms'\<rparr>]"
    and q: "ap_pending (app_wifi_media J ms app) = (ap_pending app)((mb_session_id b, mb_token b) := None)"
    using wifi_media_changes [OF assms(2,3)] by blast
  have "waiting_ok (gate_of app) (mb_session_id b, mb_token b) n"
    using gate_inv_waiting [OF gate(2)] p by (simp add: gate_of_def)
  then have w: "mb_session_id b = se_id ?se" "mb_token b = se_token ?se"
    "cp_transport (se_cp ?se) = TagWifi" "se_inbox ?se = None" "se_media ?se = None"
    using assms(2) by (auto simp: waiting_ok_def gate_of_def gate_session_of_def simp del: not_None_eq)
  have "credential_ok (g_token (gate_of app)) (paired_keys C) (gate_session_of ?se)"
    using gate(2) assms(2) by (auto simp: gate_inv_def gate_of_def)
  then have "se_token ?se = base64_url token_bytes"
    using w(3) gate_token_fixed [OF gate(1)]
    by (simp add: credential_ok_def gate_session_of_def gate_start_def)
  then show ?thesis using h s q w by auto
qed

theorem media_reaches_its_session_witness:
  "\<exists>ms b ms'. read_media_hello demo_json ms = (Inr b, ms') \<and> mb_session_id b = ''sess-u1'' \<and>
     mb_token b = demo_token"
proof -
  define ms where "ms = \<lparr> ms_peer = cst_peer demo_control, ms_wire =
    (cst_wire demo_control)\<lparr>rx := wire_bytes demo_json (media_hello_envelope demo_binding)\<rparr> \<rparr>"
  have h: "read_media_hello demo_json ms = (Inr demo_binding, ms\<lparr>ms_wire := (ms_wire ms)\<lparr>rx := []\<rparr>\<rparr>)"
    by (rule media_hello_carried(2)) (simp_all add: ms_def demo_wire_carried demo_wire_def)
  have "se_inbox (ap_sessions (app_wifi_media demo_json ms demo_app) ! 0) \<noteq> se_inbox (ap_sessions demo_app ! 0)"
    using h demo_session by (simp add: app_wifi_media_def bindings_take_def update_session_def demo_binding_def)
  then have "ap_sessions (app_wifi_media demo_json ms demo_app) ! 0 \<noteq> ap_sessions demo_app ! 0"
    by auto
  then show ?thesis
    using media_reaches_its_session [OF demo_run [unfolded demo_start_def], of 0 ms] demo_session
    by (auto simp: demo_token_def)
qed

text \<open>What a new session rests on.\<close>

lemma wifi_control_sessions:
  "ap_sessions (app_wifi_control J uuid now cs app) = ap_sessions app \<or>
   (\<exists>acc cs' se. accept_control J uuid (qr_token (ap_qr app)) server_caps cs = (Inr acc, cs') \<and>
      gate_session_of se = \<lparr> gs_id = ac_session_id acc, gs_token = ac_token acc, gs_transport = TagWifi, gs_media = False \<rparr> \<and>
      ap_sessions (app_wifi_control J uuid now cs app) = ap_sessions app @ [se])"
  using gate_session_of_new(1)
  by (auto simp: app_wifi_control_def Let_def add_session_def set_state_def split: prod.split sum.split)

lemma usb_dialed_sessions:
  "ap_sessions (app_usb_dialed C J uuid now store dl app) = ap_sessions app \<or>
   (\<exists>k acc cs' se. store_get C (dl_udid dl) store = Inr (Some k) \<and>
      accept_control_usb J uuid (as_b64 C k) server_caps (dl_control dl) = (Inr acc, cs') \<and>
      gate_session_of se = \<lparr> gs_id = ac_session_id acc, gs_token = ac_token acc, gs_transport = TagUsb, gs_media = True \<rparr> \<and>
      ap_sessions (app_usb_dialed C J uuid now store dl app) = ap_sessions app @ [se])"
  using gate_session_of_new(2)
  by (auto simp: app_usb_dialed_def Let_def add_session_def set_state_def split: prod.split sum.split option.split)

lemma gate_of_length: "gate_of app' = gate_of app \<Longrightarrow> length (ap_sessions app') = length (ap_sessions app)"
  by (metis gate_of_def gate.select_convs(3) length_map)

lemma wifi_media_length: "length (ap_sessions (app_wifi_media J ms app)) = length (ap_sessions app)"
  by (auto simp: app_wifi_media_def update_session_def split: prod.split sum.split option.split)



end
