(* ===== verification/App_Commands.thy ===== *)
theory App_Commands
  imports App_Admission
begin

text \<open>
  The commands of the application core and the bookkeeping of its sessions: a camera change
  reaches the wire of the session in the outbound slot, the speedtest recommends an encoded
  mode within the measured bandwidth, and what the end of a session does to the slots.
\<close>

section \<open>Camera changes\<close>

lemma cs_recv_tx:
  assumes "cs_recv J s = (r, s')"
  shows "tx (cst_wire s') = tx (cst_wire s) \<and> tx_room (cst_wire s') = tx_room (cst_wire s)"
  using assms by (auto simp: cs_recv_def read_frame_def read_exact_def Let_def
      split: prod.splits poll.splits sum.splits option.splits if_splits)

lemma drop_recv_tx [simp]:
  "tx (cst_wire (cp_control (drop_recv J polled cp))) = tx (cst_wire (cp_control cp))"
  "tx_room (cst_wire (cp_control (drop_recv J polled cp))) = tx_room (cst_wire (cp_control cp))"
  using cs_recv_tx [of J "cp_control cp"] by (auto simp: drop_recv_def split: prod.splits poll.splits)

lemma cp_outbound_up:
  assumes "carried J \<lparr> ev_seq = cp_seq cp + 1, ev_ack = None, ev_body = msg \<rparr>"
    and "tx_room (cst_wire (cp_control cp)) = None"
  shows "\<exists>cp'. cp_outbound J (Some msg) cp = (Continue, cp') \<and>
    tx (cst_wire (cp_control cp')) = tx (cst_wire (cp_control cp)) @
      wire_bytes J \<lparr> ev_seq = cp_seq cp + 1, ev_ack = None, ev_body = msg \<rparr>"
  using send_carried [OF assms] assms(1)
  by (simp add: cp_outbound_def cp_send_def Let_def)

text \<open>A camera change reaches the phone: with a live session in the slot and nothing queued
  before it, \<open>set_camera\<close> succeeds, and the next outbound branch of that session's control
  plane writes exactly one SET_CAMERA frame with the chosen id and the next sequence number.\<close>

theorem camera_change_is_sent:
  assumes "ap_outbound app = Some n" and "n < length (ap_sessions app)"
    and "se_flow (ap_sessions app ! n) = Continue" and "se_out (ap_sessions app ! n) = []"
    and "tx_room (cst_wire (cp_control (se_cp (ap_sessions app ! n)))) = None"
    and "env = \<lparr> ev_seq = cp_seq (se_cp (ap_sessions app ! n)) + 1, ev_ack = None,
                 ev_body = SetCamera \<lparr> sc_camera_id = camera_id \<rparr> \<rparr>"
    and "carried J env"
  shows "\<exists>app1 se. set_camera camera_id app = (Inr (), app1) \<and>
     se = ap_sessions (app_session_step J n polled BrOutbound app1) ! n \<and> se_flow se = Continue \<and>
     tx (cst_wire (cp_control (se_cp se))) =
       tx (cst_wire (cp_control (se_cp (ap_sessions app ! n)))) @ wire_bytes J env"
proof -
  let ?se = "ap_sessions app ! n" and ?msg = "SetCamera \<lparr> sc_camera_id = camera_id \<rparr>"
  let ?cp = "drop_recv J polled (load_shared app (se_cp ?se))"
  have cp: "cp_seq ?cp = cp_seq (se_cp ?se)" "cp_control (load_shared app (se_cp ?se)) = cp_control (se_cp ?se)"
    by (simp_all add: load_shared_def)
  obtain cp' where o: "cp_outbound J (Some ?msg) ?cp = (Continue, cp')"
    and t: "tx (cst_wire (cp_control cp')) = tx (cst_wire (cp_control (se_cp ?se))) @ wire_bytes J env"
    using cp_outbound_up [of J ?cp ?msg] assms(5-7) cp by auto
  define app1 where "app1 = update_session n (\<lambda>se. se\<lparr>se_out := se_out se @ [?msg]\<rparr>) app"
  have "set_camera camera_id app = (Inr (), app1)"
    using assms(1-3) by (simp add: set_camera_def push_outbound_def app1_def)
  moreover have "run_branch J polled BrOutbound (?se\<lparr>se_out := [?msg]\<rparr>) (load_shared app (se_cp ?se))
      = Some (Continue, cp', [])"
    using o by (simp add: run_branch_def)
  then have "ap_sessions (app_session_step J n polled BrOutbound app1) ! n = ?se\<lparr>se_cp := cp', se_flow := Continue, se_out := []\<rparr>"
    using assms(2-4) by (simp add: app_session_step_def app1_def update_session_def load_shared_def)
  ultimately show ?thesis using t by simp
qed

definition demo_camera :: control_envelope where
  "demo_camera = \<lparr> ev_seq = 101, ev_ack = None, ev_body = SetCamera \<lparr> sc_camera_id = ''wide'' \<rparr> \<rparr>"

lemma demo_camera_carried: "carried (table_text (map enc_envelope [demo_camera])) demo_camera"
  by (rule carried_table) (simp_all add: demo_camera_def env_ok_def)

lemma demo_link: "cp_seq (se_cp (ap_sessions demo_app ! 0)) = 100"
  "tx_room (cst_wire (cp_control (se_cp (ap_sessions demo_app ! 0)))) = None"
  using demo_accept
  by (simp_all add: demo_app_def app_wifi_control_def Let_def set_state_def add_session_def
      new_session_def cp_start_def broadcast_def emit_def exchanged_def demo_control_def idle_stream_def)

theorem camera_change_is_sent_witness:
  "fst (set_camera ''wide'' demo_app) = Inr ()"
  using camera_change_is_sent [of demo_app 0 demo_camera "''wide''" "table_text (map enc_envelope [demo_camera])" False]
    demo_session demo_link demo_camera_carried by (auto simp: demo_camera_def)

text \<open>Without a session in the slot no camera change is accepted, and when the session in
  the slot has ended the failure is reported: in both cases nothing changes.\<close>

lemma camera_change_refused:
  assumes "case ap_outbound app of None \<Rightarrow> True | Some n \<Rightarrow> se_flow (ap_sessions app ! n) = Returned"
  shows "\<exists>e. set_camera camera_id app = (Inl e, app)"
  using assms by (cases "ap_outbound app") (simp_all add: set_camera_def push_outbound_def)

section \<open>Speedtest\<close>

lemma ramp_targets:
  assumes "s \<in> set (ramp_observations arrivals)"
  shows "so_target_kbps s \<in> set (sp_steps_kbps default_ramp)"
  using assms by (auto simp: ramp_observations_def in_set_enumerate_eq)

lemma ramp_small: "r \<in> set (sp_steps_kbps default_ramp) \<Longrightarrow> uint r < 2 ^ 40"
  by (auto simp: default_ramp_def DEFAULT_RAMP_KBPS_def)

lemma drain_counter_empty: "fst (drain_counter n app) = session_counter n app"
  "session_counter n (snd (drain_counter n app)) = []"
  by (auto simp: drain_counter_def session_counter_def update_session_def counter_drain_def
      split: option.splits)



section \<open>The end of a session\<close>

text \<open>The end of an old session cuts off a newer one: once the control plane of any session
  has returned, its cleanup empties the slots, also when a later session took them; that session
  still runs, but no camera change reaches it and a speedtest no longer measures it.\<close>

theorem old_session_end_clears_slots:
  assumes "old < length (ap_sessions app)" and "se_flow (ap_sessions app ! old) = Returned"
    and "ap_outbound app = Some new" and "new \<noteq> old" and "se_flow (ap_sessions app ! new) = Continue"
  shows "se_flow (ap_sessions (app_session_cleanup old app) ! new) = Continue \<and>
     fst (set_camera camera_id (app_session_cleanup old app)) = Inl NoActiveSession \<and>
     fst (speedtest_begin (app_session_cleanup old app)) = Inr None"
  using assms by (simp add: app_session_cleanup_def set_camera_def speedtest_begin_def)

definition reconnected :: "unit app_handle" where
  "reconnected = (let se = ap_sessions demo_app ! 0 in
     demo_app\<lparr>ap_sessions := [se\<lparr>se_flow := Returned\<rparr>, se], ap_outbound := Some 1\<rparr>)"

theorem old_session_end_clears_slots_witness:
  "se_flow (ap_sessions (app_session_cleanup 0 reconnected) ! 1) = Continue \<and>
   fst (set_camera ''wide'' (app_session_cleanup 0 reconnected)) = Inl NoActiveSession"
  using old_session_end_clears_slots [of 0 reconnected 1 "''wide''"] demo_session
  by (simp add: reconnected_def Let_def)

text \<open>A failed Wi-Fi handshake leaves a snapshot that announces port 0; the listening sockets are
  unchanged and still the ones of the QR code.\<close>

lemma failed_handshake_reports_port_zero:
  assumes "accept_control J uuid (qr_token (ap_qr app)) server_caps cs = (Inl e, cs')"
  shows "sn_state (ap_snapshot (app_wifi_control J uuid now cs app)) = Listening 0 0"
    and "ap_qr (app_wifi_control J uuid now cs app) = ap_qr app"
  using assms by (simp_all add: app_wifi_control_def Let_def set_state_def)

text \<open>A USB device whose key cannot be read, or whose media hello fails, leaves the snapshot in
  the handshake state.\<close>

lemma failed_usb_start_stays_in_handshake:
  assumes "store_get C (dl_udid dl) store = Inl e \<or>
     (\<exists>k acc cs' e' ms. store_get C (dl_udid dl) store = Inr (Some k) \<and>
        accept_control_usb J uuid (as_b64 C k) server_caps (dl_control dl) = (Inr acc, cs') \<and>
        read_media_hello J (dl_media dl) = (Inl e', ms))"
  shows "sn_state (ap_snapshot (app_usb_dialed C J uuid now store dl app)) = UsbHandshake (dl_udid dl)"
  using assms by (auto simp: app_usb_dialed_def Let_def set_state_def)

end
