(* ===== verification/End_To_End.thy ===== *)
theory End_To_End
  imports Mock_Phone App_Commands
begin

text \<open>
  The phone and the desktop together: the bytes one side writes are the bytes the other side
  reads. The phone of \<open>Mock_Phone\<close> connects to the core of \<open>App_Core\<close>, the records of
  its video are decoded to the frames it drew, and the bytes of its ramp are what the desktop's
  speedtest counts.
\<close>

section \<open>The phone's side of the handshake\<close>

definition hello_env :: control_envelope where
  "hello_env = \<lparr> ev_seq = 1, ev_ack = None, ev_body = Hello mock_hello \<rparr>"

definition auth_env :: "mock_args \<Rightarrow> control_envelope" where
  "auth_env args = \<lparr> ev_seq = 2, ev_ack = None, ev_body = Auth (mock_auth args) \<rparr>"

definition device_env :: control_envelope where
  "device_env = \<lparr> ev_seq = 3, ev_ack = None, ev_body = DeviceInfo mock_device_info \<rparr>"

definition cameras_env :: control_envelope where
  "cameras_env = \<lparr> ev_seq = 4, ev_ack = None, ev_body = CameraList \<lparr> cl_cameras = synthetic_cameras \<rparr> \<rparr>"

definition binding_of :: "mock_args \<Rightarrow> string \<Rightarrow> media_binding" where
  "binding_of args sid = \<lparr> mb_session_id = sid, mb_token = ma_token args \<rparr>"

definition ack_env :: control_envelope where
  "ack_env = hello_ack_envelope 1 (agreed_caps server_caps mock_hello)"

text \<open>The envelopes of a connection, all within what the JSON text level carries.\<close>

definition connection_carried :: "json_text \<Rightarrow> mock_args \<Rightarrow> string \<Rightarrow> bool" where
  "connection_carried J args sid \<longleftrightarrow>
     list_all (carried J) [hello_env, auth_env args, device_env, cameras_env, ack_env,
       auth_ok_envelope 2 sid, media_hello_envelope (binding_of args sid)]"

definition fresh_wire :: wire where
  "fresh_wire = \<lparr> rx = [], rx_eof = False, tx = [], tx_room = None \<rparr>"

definition control_over :: "wire \<Rightarrow> control_stream" where
  "control_over w = \<lparr> cst_peer = wifi_peer ([127, 0, 0, 1], 5000), cst_wire = w \<rparr>"

definition media_over :: "wire \<Rightarrow> media_stream" where
  "media_over w = \<lparr> ms_peer = wifi_peer ([127, 0, 0, 1], 5001), ms_wire = w \<rparr>"

text \<open>The phone connects and is given, in two chunks, the two replies.\<close>

definition connect_phone :: "json_text \<Rightarrow> mock_args \<Rightarrow> bytes \<Rightarrow> bytes \<Rightarrow> mock_phone" where
  "connect_phone J args ack ok =
     mock_run J [MockBytes ack False, MockRun 0, MockBytes ok False, MockRun 0]
       (mock_start J args (control_over fresh_wire) (media_over fresh_wire))"

lemma mock_send_carried:
  assumes "carried J \<lparr> ev_seq = mk_seq m + 1, ev_ack = a, ev_body = body \<rparr>"
    and "tx_room (cst_wire (mk_control m)) = None"
  shows "mock_send J a body ph m = m\<lparr>mk_seq := mk_seq m + 1, mk_phase := ph,
    mk_control := (mk_control m)\<lparr>cst_wire := (cst_wire (mk_control m))
      \<lparr>tx := tx (cst_wire (mk_control m)) @ wire_bytes J \<lparr> ev_seq = mk_seq m + 1, ev_ack = a, ev_body = body \<rparr>\<rparr>\<rparr>\<rparr>"
  using send_carried [OF assms] by (simp add: mock_send_def Let_def)

lemma connect_phone_ok:
  assumes "connection_carried J args sid"
  shows "connect_phone J args (wire_bytes J ack_env) (wire_bytes J (auth_ok_envelope 2 sid)) =
    \<lparr> mk_args = args, mk_phase = LoopTop,
      mk_control = control_over (fresh_wire\<lparr>tx := wire_bytes J hello_env @ wire_bytes J (auth_env args) @
         wire_bytes J device_env @ wire_bytes J cameras_env\<rparr>),
      mk_media = media_over (fresh_wire\<lparr>tx := wire_bytes J (media_hello_envelope (binding_of args sid))\<rparr>),
      mk_seq = 4, mk_battery = f64_lit (87 / 100), mk_tick = 0, mk_video = ma_send_video args, mk_ramps = 0 \<rparr>"
proof -
  have c: "carried J hello_env" "carried J (auth_env args)" "carried J device_env" "carried J cameras_env"
    "carried J ack_env" "carried J (auth_ok_envelope 2 sid)" "carried J (media_hello_envelope (binding_of args sid))"
    using assms by (simp_all add: connection_carried_def)
  let ?m0 = "\<lparr> mk_args = args, mk_phase = AwaitHelloAck,
      mk_control = control_over (fresh_wire\<lparr>tx := wire_bytes J hello_env\<rparr>), mk_media = media_over fresh_wire,
      mk_seq = 1, mk_battery = f64_lit (87 / 100), mk_tick = 0, mk_video = False, mk_ramps = 0 \<rparr>"
  have start: "mock_start J args (control_over fresh_wire) (media_over fresh_wire) = ?m0"
    using c(1) by (simp add: mock_start_def mock_init_def mock_send_carried hello_env_def control_over_def fresh_wire_def)
  let ?m1 = "?m0\<lparr>mk_phase := AwaitAuthOk, mk_seq := 2,
      mk_control := control_over (fresh_wire\<lparr>tx := wire_bytes J hello_env @ wire_bytes J (auth_env args)\<rparr>)\<rparr>"
  have "cs_recv J (control_over (fresh_wire\<lparr>rx := wire_bytes J ack_env, tx := wire_bytes J hello_env\<rparr>)) =
      (Ready (Inr ack_env), control_over (fresh_wire\<lparr>tx := wire_bytes J hello_env\<rparr>))"
    using recv_carried [OF c(5), of _ "[]"] by (simp add: control_over_def fresh_wire_def)
  then have one: "mock_run J [MockBytes (wire_bytes J ack_env) False, MockRun 0] ?m0 = ?m1"
    using c(2) by (simp add: mock_run_def mock_step_def mock_on_hello_ack_def ack_env_def hello_ack_envelope_def
        mock_send_carried auth_env_def control_over_def fresh_wire_def)
  have "cs_recv J (control_over (fresh_wire\<lparr>rx := wire_bytes J (auth_ok_envelope 2 sid),
        tx := wire_bytes J hello_env @ wire_bytes J (auth_env args)\<rparr>)) =
      (Ready (Inr (auth_ok_envelope 2 sid)), control_over (fresh_wire\<lparr>tx := wire_bytes J hello_env @ wire_bytes J (auth_env args)\<rparr>))"
    using recv_carried [OF c(6), of _ "[]"] by (simp add: control_over_def fresh_wire_def)
  moreover have "write_media_hello J (binding_of args sid) (media_over fresh_wire) =
      (Inr (), media_over (fresh_wire\<lparr>tx := wire_bytes J (media_hello_envelope (binding_of args sid))\<rparr>))"
    using media_hello_carried(1) [OF c(7)] by (simp add: media_over_def fresh_wire_def)
  ultimately have "mock_run J [MockBytes (wire_bytes J (auth_ok_envelope 2 sid)) False, MockRun 0] ?m1 =
     \<lparr> mk_args = args, mk_phase = LoopTop,
      mk_control = control_over (fresh_wire\<lparr>tx := wire_bytes J hello_env @ wire_bytes J (auth_env args) @
         wire_bytes J device_env @ wire_bytes J cameras_env\<rparr>),
      mk_media = media_over (fresh_wire\<lparr>tx := wire_bytes J (media_hello_envelope (binding_of args sid))\<rparr>),
      mk_seq = 4, mk_battery = f64_lit (87 / 100), mk_tick = 0, mk_video = ma_send_video args, mk_ramps = 0 \<rparr>"
    using c(3,4) by (simp add: mock_run_def mock_step_def mock_on_auth_ok_def mock_announce_def
        auth_ok_envelope_def binding_of_def mock_send_carried device_env_def cameras_env_def Let_def
        control_over_def fresh_wire_def)
  then show ?thesis using start one by (simp add: connect_phone_def mock_run_def)
qed

section \<open>The desktop's side\<close>

text \<open>A receive branch of a session that has a message waiting.\<close>

lemma session_recv:
  assumes "n < length (ap_sessions app)" and "se_flow (ap_sessions app ! n) = Continue"
    and "cs_recv J (cp_control (se_cp (ap_sessions app ! n))) = (Ready (Inr env), c)"
    and "cp_handle J usec env ((load_shared app (se_cp (ap_sessions app ! n)))\<lparr>cp_control := c, cp_last_rx := now,
           cp_received := cp_received (se_cp (ap_sessions app ! n)) @ [ev_body env]\<rparr>) = (f, cp')"
  shows "app_session_step J n polled (BrRecv now usec) app =
    app\<lparr>ap_snapshot := cp_snapshot cp', ap_events := cp_events cp',
        ap_sessions := (ap_sessions app)[n := (ap_sessions app ! n)\<lparr>se_cp := cp', se_flow := f\<rparr>]\<rparr>"
proof -
  have "cp_recv J now usec (load_shared app (se_cp (ap_sessions app ! n))) = Some (f, cp')"
    using assms(3,4) by (simp add: cp_recv_def load_shared_def)
  then show ?thesis using assms(1,2)
    by (simp add: app_session_step_def run_branch_def update_session_def Let_def)
qed

text \<open>The desktop reads what the phone wrote: the control connection, the media connection, and
  two messages of the new session.\<close>

definition desktop_accepts :: "json_text \<Rightarrow> string \<Rightarrow> instant \<Rightarrow> mock_phone \<Rightarrow> 'k app_handle \<Rightarrow> 'k app_handle" where
  "desktop_accepts J uuid now phone app =
     app_wifi_media J (media_over (fresh_wire\<lparr>rx := tx (ms_wire (mk_media phone))\<rparr>))
       (app_wifi_control J uuid now (control_over (fresh_wire\<lparr>rx := tx (cst_wire (mk_control phone))\<rparr>)) app)"

definition desktop_listens :: "json_text \<Rightarrow> nat \<Rightarrow> instant \<Rightarrow> 'k app_handle \<Rightarrow> 'k app_handle" where
  "desktop_listens J n now app =
     app_session_step J n False (BrRecv now 0) (app_session_step J n False (BrRecv now 0) app)"

lemma desktop_accepts_ok:
  assumes "connection_carried J args sid"
    and "ma_transport args = WifiClient" and "ma_token args = qr_token (ap_qr app)"
    and "phone = connect_phone J args (wire_bytes J ack_env) (wire_bytes J (auth_ok_envelope 2 sid))"
    and "app' = desktop_accepts J uuid now phone app" and "n = length (ap_sessions app)"
    and "sid = ''sess-'' @ uuid"
  shows "\<exists>se. ap_sessions app' = ap_sessions app @ [se] \<and> se_id se = sid \<and> se_flow se = Continue \<and>
     se_inbox se \<noteq> None \<and> cp_transport (se_cp se) = TagWifi \<and> ap_outbound app' = Some n \<and>
     cp_control (se_cp se) = control_over (fresh_wire\<lparr>rx := wire_bytes J device_env @ wire_bytes J cameras_env,
        tx := wire_bytes J ack_env @ wire_bytes J (auth_ok_envelope 2 sid)\<rparr>)"
proof -
  let ?cs = "control_over (fresh_wire\<lparr>rx := wire_bytes J hello_env @ wire_bytes J (auth_env args) @
      wire_bytes J device_env @ wire_bytes J cameras_env\<rparr>)"
  let ?cs' = "exchanged J [ack_env, auth_ok_envelope 2 sid] (wire_bytes J device_env @ wire_bytes J cameras_env) ?cs"
  have acc: "accept_control J uuid (qr_token (ap_qr app)) server_caps ?cs =
      (Inr \<lparr> ac_session_id = sid, ac_token = ma_token args, ac_hello = mock_hello \<rparr>, ?cs')"
    using assms(1-3) wifi.accept_complete [of J hello_env mock_hello "auth_env args" "ma_token args" server_caps uuid
        ?cs "wire_bytes J device_env @ wire_bytes J cameras_env"]
    by (simp add: connection_carried_def hello_env_def auth_env_def mock_auth_def mock_hello_def ack_env_def
        control_over_def fresh_wire_def assms(7))
  have hello: "read_media_hello J (media_over (fresh_wire\<lparr>rx := wire_bytes J (media_hello_envelope (binding_of args sid))\<rparr>)) =
      (Inr (binding_of args sid), media_over fresh_wire)"
    using media_hello_carried(2) [of J "binding_of args sid" _ "[]"] assms(1)
    by (simp add: connection_carried_def media_over_def fresh_wire_def)
  note phone = connect_phone_ok [OF assms(1)]
  have "app' = app_wifi_media J (media_over (fresh_wire\<lparr>rx := wire_bytes J (media_hello_envelope (binding_of args sid))\<rparr>))
      (app_wifi_control J uuid now ?cs app)"
    by (simp add: assms(4,5) phone desktop_accepts_def control_over_def media_over_def fresh_wire_def)
  then show ?thesis using acc hello assms(6)
    by (simp add: app_wifi_control_def app_wifi_media_def Let_def set_state_def add_session_def new_session_def
        bindings_insert_def bindings_take_def binding_of_def update_session_def cp_start_def
        broadcast_def emit_def exchanged_def control_over_def fresh_wire_def nth_append)
qed

lemma desktop_listens_ok:
  assumes "carried J device_env" and "carried J cameras_env"
    and "n < length (ap_sessions app)" and "se = ap_sessions app ! n" and "se_flow se = Continue"
    and "cst_wire (cp_control (se_cp se)) = fresh_wire\<lparr>rx := wire_bytes J device_env @ wire_bytes J cameras_env, tx := out\<rparr>"
    and "app' = desktop_listens J n now app"
  shows "sn_device (ap_snapshot app') = Some ((from_device_info mock_device_info)\<lparr>ds_cameras := synthetic_cameras\<rparr>) \<and>
    sn_state (ap_snapshot app') = StReady (Some (cp_transport (se_cp se))) \<and>
    length (ap_sessions app') = length (ap_sessions app) \<and>
    se_flow (ap_sessions app' ! n) = Continue \<and>
    cst_wire (cp_control (se_cp (ap_sessions app' ! n))) = fresh_wire\<lparr>tx := out\<rparr>"
proof -
  let ?c1 = "(cp_control (se_cp se))\<lparr>cst_wire := fresh_wire\<lparr>rx := wire_bytes J cameras_env, tx := out\<rparr>\<rparr>"
  let ?c2 = "(cp_control (se_cp se))\<lparr>cst_wire := fresh_wire\<lparr>tx := out\<rparr>\<rparr>"
  have r1: "cs_recv J (cp_control (se_cp se)) = (Ready (Inr device_env), ?c1)"
    using recv_carried [OF assms(1), of _ "wire_bytes J cameras_env"] assms(6)
    by (simp add: fresh_wire_def)
  have r2: "cs_recv J ?c1 = (Ready (Inr cameras_env), ?c2)"
    using recv_carried [OF assms(2), of ?c1 "[]"] by (simp add: fresh_wire_def)
  define cp1 where "cp1 = snd (cp_handle J 0 device_env ((load_shared app (se_cp se))\<lparr>cp_control := ?c1, cp_last_rx := now,
           cp_received := cp_received (se_cp se) @ [ev_body device_env]\<rparr>))"
  have cp1: "cp_control cp1 = ?c1" "cp_transport cp1 = cp_transport (se_cp se)"
    "sn_device (cp_snapshot cp1) = Some (from_device_info mock_device_info)"
    "sn_state (cp_snapshot cp1) = StReady (Some (cp_transport (se_cp se)))"
    by (simp_all add: cp1_def cp_handle_def device_env_def Let_def broadcast_def emit_def load_shared_def)
  define app1 where "app1 = app_session_step J n False (BrRecv now 0) app"
  have app1: "app1 = app\<lparr>ap_snapshot := cp_snapshot cp1, ap_events := cp_events cp1,
        ap_sessions := (ap_sessions app)[n := se\<lparr>se_cp := cp1, se_flow := Continue\<rparr>]\<rparr>"
    unfolding app1_def using session_recv [OF assms(3), of J device_env ?c1 0 now Continue cp1] r1 assms(4,5)
    by (simp add: cp1_def cp_handle_def device_env_def Let_def)
  define cp2 where "cp2 = snd (cp_handle J 0 cameras_env ((load_shared app1 cp1)\<lparr>cp_control := ?c2, cp_last_rx := now,
           cp_received := cp_received cp1 @ [ev_body cameras_env]\<rparr>))"
  have cp2: "cp_control cp2 = ?c2"
    "sn_device (cp_snapshot cp2) = Some ((from_device_info mock_device_info)\<lparr>ds_cameras := synthetic_cameras\<rparr>)"
    "sn_state (cp_snapshot cp2) = StReady (Some (cp_transport (se_cp se)))"
    using cp1(3,4) app1 by (simp_all add: cp2_def cp_handle_def cameras_env_def Let_def emit_def load_shared_def)
  have "app' = app1\<lparr>ap_snapshot := cp_snapshot cp2, ap_events := cp_events cp2,
        ap_sessions := (ap_sessions app1)[n := (se\<lparr>se_cp := cp1, se_flow := Continue\<rparr>)\<lparr>se_cp := cp2, se_flow := Continue\<rparr>]\<rparr>"
    using session_recv [of n app1 J cameras_env ?c2 0 now Continue cp2 False] r2 app1 cp1(1) assms(3,7)
    by (simp add: desktop_listens_def app1_def [symmetric] cp2_def cp_handle_def cameras_env_def Let_def
        split: option.splits)
  then show ?thesis using cp2 app1 assms(3) by simp
qed

section \<open>Properties\<close>

text \<open>C5. A phone that scanned the QR code connects: the phone that is given the two replies reaches
  its streaming loop; the desktop that is given the bytes the phone wrote has one more session, with
  media attached, which wrote exactly these two replies; and after two receives the snapshot is
  Ready over Wi-Fi and shows the phone's model and its four cameras.\<close>

theorem phone_connects_to_desktop:
  assumes "connection_carried J args sid" and "sid = ''sess-'' @ uuid"
    and "ma_transport args = WifiClient" and "ma_token args = qr_token (ap_qr app)"
    and "phone = connect_phone J args (wire_bytes J ack_env) (wire_bytes J (auth_ok_envelope 2 sid))"
    and "n = length (ap_sessions app)" and "app1 = desktop_accepts J uuid now phone app"
    and "app2 = desktop_listens J n now app1"
  shows "mk_phase phone = LoopTop \<and> length (ap_sessions app2) = Suc n \<and>
     se_id (ap_sessions app1 ! n) = sid \<and> se_inbox (ap_sessions app1 ! n) \<noteq> None \<and>
     cst_wire (cp_control (se_cp (ap_sessions app2 ! n))) =
       fresh_wire\<lparr>tx := wire_bytes J ack_env @ wire_bytes J (auth_ok_envelope 2 sid)\<rparr> \<and>
     sn_state (ap_snapshot app2) = StReady (Some TagWifi) \<and>
     sn_device (ap_snapshot app2) = Some \<lparr> ds_model = ''iPhone15,3'', ds_os_ver = ''iOS 18.0'',
       ds_usb3_capable = True, ds_battery_level = f64_lit (87 / 100), ds_cameras = synthetic_cameras \<rparr>"
proof -
  obtain se where se: "ap_sessions app1 = ap_sessions app @ [se]" "se_id se = sid" "se_flow se = Continue"
    "se_inbox se \<noteq> None" "cp_transport (se_cp se) = TagWifi"
    "cp_control (se_cp se) = control_over (fresh_wire\<lparr>rx := wire_bytes J device_env @ wire_bytes J cameras_env,
        tx := wire_bytes J ack_env @ wire_bytes J (auth_ok_envelope 2 sid)\<rparr>)"
    using desktop_accepts_ok [OF assms(1,3-5,7,6,2)] by blast
  have n: "n < length (ap_sessions app1)" "se = ap_sessions app1 ! n" using se(1) assms(6) by simp_all
  have c: "carried J device_env" "carried J cameras_env" using assms(1) by (simp_all add: connection_carried_def)
  have w: "cst_wire (cp_control (se_cp se)) = fresh_wire\<lparr>rx := wire_bytes J device_env @ wire_bytes J cameras_env,
      tx := wire_bytes J ack_env @ wire_bytes J (auth_ok_envelope 2 sid)\<rparr>"
    using se(6) by (simp add: control_over_def)
  note app2 = desktop_listens_ok [OF c n se(3) w assms(8)]
  have "mk_phase phone = LoopTop" unfolding assms(5) connect_phone_ok [OF assms(1)] by simp
  moreover have "(from_device_info mock_device_info)\<lparr>ds_cameras := synthetic_cameras\<rparr> =
     \<lparr> ds_model = ''iPhone15,3'', ds_os_ver = ''iOS 18.0'', ds_usb3_capable = True,
       ds_battery_level = f64_lit (87 / 100), ds_cameras = synthetic_cameras \<rparr>"
    by (simp add: from_device_info_def mock_device_info_def)
  moreover have "length (ap_sessions app1) = Suc n" using se(1) assms(6) by simp
  ultimately show ?thesis using app2 se(2,4,5) n(2) by metis
qed

definition phone_args :: mock_args where
  "phone_args = \<lparr> ma_host = ''192.168.0.2'', ma_cport = 5000, ma_mport = 5001, ma_token = demo_token,
     ma_width = 1280, ma_height = 720, ma_fps = 30, ma_send_video = True, ma_transport = WifiClient,
     ma_congested = False \<rparr>"

definition phone_wire :: "control_envelope list" where
  "phone_wire = [hello_env, auth_env phone_args, device_env, cameras_env, ack_env,
     auth_ok_envelope 2 ''sess-u1'', media_hello_envelope (binding_of phone_args ''sess-u1'')]"

lemma phone_wire_ok: "list_all env_ok phone_wire"
  using f64_round_small [of "87 / 100"]
  by (simp add: phone_wire_def env_ok_def hello_env_def auth_env_def device_env_def cameras_env_def ack_env_def
      auth_ok_envelope_def media_hello_envelope_def hello_ack_envelope_def mock_hello_def mock_caps_def
      mock_auth_def phone_args_def mock_device_info_def agreed_caps_def server_caps_def cap_ok_def cap_from_def f64_finite_def)

theorem phone_connects_to_desktop_witness:
  "\<exists>J phone app. phone = connect_phone J phone_args (wire_bytes J ack_env) (wire_bytes J (auth_ok_envelope 2 ''sess-u1'')) \<and>
     app = desktop_listens J 0 0 (desktop_accepts J ''u1'' 0 phone demo_start) \<and>
     mk_phase phone = LoopTop \<and> sn_state (ap_snapshot app) = StReady (Some TagWifi)"
proof -
  let ?J = "table_text (map enc_envelope phone_wire)"
  have "carried ?J e" if "e \<in> set phone_wire" for e
    using that phone_wire_ok by (intro carried_table) (auto simp: list_all_iff, simp add: phone_wire_def)
  then have "list_all (carried ?J) phone_wire" by (simp add: list_all_iff)
  then have c: "connection_carried ?J phone_args ''sess-u1''"
    by (simp add: connection_carried_def phone_wire_def)
  have "ma_transport phone_args = WifiClient" "ma_token phone_args = qr_token (ap_qr demo_start)"
    "0 = length (ap_sessions demo_start)" "''sess-u1'' = ''sess-'' @ ''u1''"
    by (simp_all add: phone_args_def)
  from phone_connects_to_desktop [OF c this(4,1,2) refl this(3) refl refl, of 0] show ?thesis by blast
qed

section \<open>The ramp\<close>

lemma sum_list_enumerate:
  "sum_list (map (\<lambda>(j, x). if j = i then F x else 0) (enumerate k xs)) =
     (if k \<le> i \<and> i < k + length xs then F (xs ! (i - k)) else (0 :: nat))"
proof (induction xs arbitrary: k)
  case (Cons x xs)
  then show ?case by (cases "i = k") (auto simp: nth_Cons' Suc_diff_le not_le split: if_splits)
qed simp

lemma ramp_length: "length (speedtest_ramp clock width height) < 2 ^ 40"
proof -
  have "step_frames width height x < 2 ^ 32" for x
    using unat_lt [of "frames_per_step_for_target x (ucast width) (ucast height)
       (word_of_nat (as_millis (sp_step_duration default_ramp)))"] by (simp add: step_frames_def)
  from this [of 50000] this [of 100000] this [of 200000] this [of 400000] this [of 800000]
  show ?thesis by (simp add: speedtest_ramp_def default_ramp_def DEFAULT_RAMP_KBPS_def)
qed

lemma ramp_step_bytes:
  assumes "i < length (sp_steps_kbps default_ramp)"
  shows "sum_list (map (\<lambda>f. length (mf_payload f))
      (filter (\<lambda>f. speedtest_step_index (mh_seq (mf_header f)) = word_of_nat i) (speedtest_ramp clock width height)))
    = step_frames width height (sp_steps_kbps default_ramp ! i) * frame_size width height"
proof -
  let ?xs = "enumerate 0 (sp_steps_kbps default_ramp)"
  have inj: "(word_of_nat j :: u32) = word_of_nat i \<longleftrightarrow> j = i" if "j < length (sp_steps_kbps default_ramp)" for j
    using that assms by (auto simp: default_ramp_def DEFAULT_RAMP_KBPS_def word_unat_eq_iff unat_of_nat)
  have "sum_list (map (\<lambda>f. length (mf_payload f)) (filter (\<lambda>f. speedtest_step_index (mh_seq (mf_header f)) = word_of_nat i)
      (concat (map (\<lambda>(j, target). map (\<lambda>l. \<lparr> mf_header = ramp_header width height j (clock j l),
                    mf_payload = replicate (frame_size width height) 0x80 \<rparr>) [0..<step_frames width height target]) ys))))
    = sum_list (map (\<lambda>(j, target). if j = i then step_frames width height target * frame_size width height else 0) ys)"
    if "set ys \<subseteq> set ?xs" for ys
    using that
  proof (induction ys)
    case (Cons y ys)
    obtain j target where y: "y = (j, target)" by fastforce
    then have "j < length (sp_steps_kbps default_ramp)" using Cons.prems by (auto simp: in_set_enumerate_eq)
    from inj [OF this] ramp_marker(2) [OF this] Cons y show ?case
      by (cases "j = i") (auto simp: ramp_header_def comp_def sum_list_triv filter_False)
  qed simp
  from this [of ?xs] show ?thesis using assms
    by (simp add: speedtest_ramp_def sum_list_enumerate)
qed

text \<open>The observations of a counter that holds exactly the ramp.\<close>

lemma ramp_bytes_measured:
  assumes "sized width height" and "i < length (sp_steps_kbps default_ramp)"
  shows "unat (so_received_bytes (ramp_observations (map arrival_of (speedtest_ramp clock width height)) ! i)) =
    step_frames width height (sp_steps_kbps default_ramp ! i) * frame_size width height"
proof -
  have "list_all record_ok (speedtest_ramp clock width height)"
    using ramp_record_ok [OF assms(1)] by (auto simp: list_all_iff)
  from counter_bytes [OF this ramp_length, of "word_of_nat i"] ramp_step_bytes [OF assms(2), of clock width height]
  show ?thesis using assms(2) by (simp add: ramp_observations_def nth_enumerate_eq)
qed

lemma first_step_720p: "step_frames 1280 720 (sp_steps_kbps default_ramp ! 0) * frame_size 1280 720 = 2764800"
  by (simp add: step_frames_def frame_size_def default_ramp_def DEFAULT_RAMP_KBPS_def DEFAULT_STEP_MS_def
      frames_per_step_for_target_def from_millis_def as_millis_def Let_def u32_clamp_def max_def word_le_nat_alt)

section \<open>Video\<close>

text \<open>A frame that shows the gradient of its own sequence number.\<close>

definition shows_gradient :: "frame_rec \<Rightarrow> bool" where
  "shows_gradient f \<longleftrightarrow> nv12_sized f \<and>
     (\<forall>y < unat (fr_height f). \<forall>x < unat (fr_width f).
        fr_plane_y f ! (y * unat (fr_width f) + x) = word_of_nat (x + y + unat (fr_seq f)))"

lemma video_record_ingested:
  assumes "length b = frame_size width height"
    and "\<forall>y < unat height. \<forall>x < unat width. b ! (y * unat width + x) = word_of_nat (x + y + unat sq)"
  obtains fr where
    "ingest_frame passthrough_decode \<lparr> mf_header = video_header width height sq u, mf_payload = b \<rparr> d = (Inr (Some fr), d)"
    "shows_gradient fr" "fr_seq fr = sq" "fr_pts_usec fr = u"
proof -
  let ?fr = "\<lparr> fr_width = width, fr_height = height, fr_pts_usec = u, fr_seq = sq, fr_codec = CodecRaw,
      fr_plane_y = take (unat width * unat height) b, fr_plane_uv = drop (unat width * unat height) b,
      fr_full_range = flags_contains FULL_RANGE FULL_RANGE \<rparr>"
  have "shows_gradient ?fr"
    using assms row_major_less [of _ "unat height" _ "unat width"]
    by (auto simp: shows_gradient_def nv12_sized_def frame_size_split)
  moreover have "ingest_frame passthrough_decode \<lparr> mf_header = video_header width height sq u, mf_payload = b \<rparr> d
      = (Inr (Some ?fr), d)"
    using assms(1) by (simp add: ingest_frame_def video_header_def split_nv12_def frame_size_split Let_def)
  ultimately show thesis using that by simp
qed

lemma video_tick_ok:
  assumes "vg_running g" and "vg_buf g = Some b0" and "length b0 = frame_size width height" and "tx_room w = None"
  obtains b where "video_tick width height u g w =
      (g\<lparr>vg_buf := Some b, vg_seq := vg_seq g + 1\<rparr>,
       w\<lparr>tx := tx w @ record_bytes \<lparr> mf_header = video_header width height (vg_seq g) u, mf_payload = b \<rparr>\<rparr>)"
    and "length b = frame_size width height"
    and "\<forall>y < unat height. \<forall>x < unat width. b ! (y * unat width + x) = word_of_nat (x + y + unat (vg_seq g))"
proof -
  obtain b where "fill_synthetic_nv12 width height (vg_seq g) b0 = Some b" "length b = frame_size width height"
    "\<forall>y < unat height. \<forall>x < unat width. b ! (y * unat width + x) = word_of_nat (x + y + unat (vg_seq g))"
    using fill_synthetic_ok [OF assms(3), of "vg_seq g"] by blast
  then show thesis using that assms(1,2,4) by (simp add: video_tick_def write_media_frame_ok)
qed

lemma video_seq_plain:
  assumes "m < 0xFFFF0000"
  shows "\<not> is_speedtest_marker (word_of_nat m)" and "unat (word_of_nat m :: u32) = m"
  using assms by (simp_all add: is_speedtest_marker_def SPEEDTEST_SEQ_BASE_def word_le_nat_alt unat_of_nat)

abbreviation recording :: "frame_rec list \<Rightarrow> frame_rec \<Rightarrow> frame_rec list" where
  "recording seen f \<equiv> seen @ [f]"

lemma video_frame_recorded:
  assumes "ingest_frame passthrough_decode f () = (Inr (Some fr), ())" and "\<not> is_filler f"
    and "pl_sinks p = replicate k seen"
  shows "pl_sinks (pipeline_frame recording passthrough_decode f p) = replicate k (seen @ [fr])"
  using pipeline_frame_video(1) [OF assms(2), of recording passthrough_decode p] assms(1,3)
  by (simp add: ingest_def)

end
