(* ===== verification/Media_Sharing.thy ===== *)
theory Media_Sharing
  imports End_To_End
begin

text \<open>
  Video and speedtest on one media connection. In the phone (\<open>tools/mock-iphone/src/lib.rs\<close>) the
  video generator and the ramp are two tasks that share the media stream behind a mutex; each
  holds the lock for one record. A schedule is any sequence of turns of the two tasks. Whatever
  the schedule, the desktop's pipeline takes the two apart again.
\<close>

section \<open>The two tasks\<close>

datatype media_turn = VideoTurn u64 | RampTurn

record media_tasks =
  mt_video :: video_gen
  mt_ramp :: "media_frame list"
  mt_wire :: wire

text \<open>The ramp's turn: the lock, one record, and the unlock; a failed write ends the task.\<close>

fun ramp_turn :: "media_frame list \<Rightarrow> wire \<Rightarrow> media_frame list \<times> wire" where
  "ramp_turn [] w = ([], w)"
| "ramp_turn (f # fs) w =
     (case write_media_frame (mf_header f) (mf_payload f) w of
        (Inl e, w') \<Rightarrow> ([], w')
      | (Inr _, w') \<Rightarrow> (fs, w'))"

fun take_turn :: "u16 \<Rightarrow> u16 \<Rightarrow> media_turn \<Rightarrow> media_tasks \<Rightarrow> media_tasks" where
  "take_turn width height (VideoTurn usec) t =
     (case video_tick width height usec (mt_video t) (mt_wire t) of
        (g, w) \<Rightarrow> t\<lparr>mt_video := g, mt_wire := w\<rparr>)"
| "take_turn width height RampTurn t =
     (case ramp_turn (mt_ramp t) (mt_wire t) of
        (fs, w) \<Rightarrow> t\<lparr>mt_ramp := fs, mt_wire := w\<rparr>)"

definition run_turns :: "u16 \<Rightarrow> u16 \<Rightarrow> media_turn list \<Rightarrow> media_tasks \<Rightarrow> media_tasks" where
  "run_turns width height turns t = fold (take_turn width height) turns t"

fun video_stamps :: "media_turn list \<Rightarrow> u64 list" where
  "video_stamps [] = []"
| "video_stamps (VideoTurn u # ts) = u # video_stamps ts"
| "video_stamps (RampTurn # ts) = video_stamps ts"

section \<open>What the schedule puts on the wire\<close>

text \<open>\<open>plays fs frames\<close>: the video among the records \<open>fs\<close> appends \<open>frames\<close> to every sink.\<close>

definition plays :: "media_frame list \<Rightarrow> frame_rec list \<Rightarrow> bool" where
  "plays fs frames \<longleftrightarrow>
     (\<forall>p k seen. pl_sinks p = replicate k seen \<longrightarrow>
        pl_sinks (fold (pipeline_frame recording passthrough_decode) fs p) = replicate k (seen @ frames))"

lemma plays_Nil: "plays [] []"
  by (simp add: plays_def)

lemma plays_filler:
  assumes "is_filler f" and "plays fs frames"
  shows "plays (f # fs) frames"
  unfolding plays_def
proof (intro allI impI)
  fix p :: "(frame_rec list, unit) pipeline" and k seen
  assume "pl_sinks p = replicate k seen"
  then have "pl_sinks (pipeline_frame recording passthrough_decode f p) = replicate k seen"
    by (simp add: pipeline_frame_filler [OF assms(1)])
  with assms(2) show "pl_sinks (fold (pipeline_frame recording passthrough_decode) (f # fs) p) = replicate k (seen @ frames)"
    unfolding plays_def fold_simps by blast
qed

lemma plays_video:
  assumes "ingest_frame passthrough_decode f () = (Inr (Some fr), ())" and "\<not> is_filler f" and "plays fs frames"
  shows "plays (f # fs) (fr # frames)"
  unfolding plays_def
proof (intro allI impI)
  fix p :: "(frame_rec list, unit) pipeline" and k seen
  assume "pl_sinks p = replicate k seen"
  from video_frame_recorded [OF assms(1,2) this] assms(3)
  have "pl_sinks (fold (pipeline_frame recording passthrough_decode) (f # fs) p) = replicate k ((seen @ [fr]) @ frames)"
    unfolding plays_def fold_simps by blast
  then show "pl_sinks (fold (pipeline_frame recording passthrough_decode) (f # fs) p) = replicate k (seen @ fr # frames)"
    by simp
qed

text \<open>The records a schedule writes: well-formed, the filler among them is what the ramp task has
  sent, and the video plays one frame per turn.\<close>

definition scheduled :: "media_tasks \<Rightarrow> media_tasks \<Rightarrow> nat \<Rightarrow> u64 list \<Rightarrow> media_frame list \<Rightarrow> frame_rec list \<Rightarrow> bool" where
  "scheduled t t' m us fs frames \<longleftrightarrow>
     mt_wire t' = (mt_wire t)\<lparr>tx := tx (mt_wire t) @ concat (map record_bytes fs)\<rparr> \<and>
     list_all record_ok fs \<and> mt_ramp t = filter is_filler fs @ mt_ramp t' \<and> plays fs frames \<and>
     map fr_seq frames = map word_of_nat [m..<m + length us] \<and> map fr_pts_usec frames = us \<and>
     list_all shows_gradient frames"

definition tasks_ready :: "u16 \<Rightarrow> u16 \<Rightarrow> nat \<Rightarrow> media_tasks \<Rightarrow> bool" where
  "tasks_ready width height m t \<longleftrightarrow> vg_running (mt_video t) \<and> vg_seq (mt_video t) = word_of_nat m \<and>
     (\<exists>b. vg_buf (mt_video t) = Some b \<and> length b = frame_size width height) \<and> tx_room (mt_wire t) = None \<and>
     list_all (\<lambda>f. record_ok f \<and> is_filler f) (mt_ramp t)"

lemma video_turn:
  assumes "sized width height" and "tasks_ready width height m t" and "m < 0xFFFF0000"
  obtains t1 f fr where "take_turn width height (VideoTurn u) t = t1" "tasks_ready width height (Suc m) t1"
    "mt_ramp t1 = mt_ramp t" "mt_wire t1 = (mt_wire t)\<lparr>tx := tx (mt_wire t) @ record_bytes f\<rparr>"
    "record_ok f" "\<not> is_filler f" "ingest_frame passthrough_decode f () = (Inr (Some fr), ())"
    "shows_gradient fr" "fr_seq fr = word_of_nat m" "fr_pts_usec fr = u"
proof -
  let ?g = "mt_video t"
  obtain b0 where r: "vg_running ?g" "vg_buf ?g = Some b0" "length b0 = frame_size width height" "tx_room (mt_wire t) = None"
    "vg_seq ?g = word_of_nat m" "list_all (\<lambda>f. record_ok f \<and> is_filler f) (mt_ramp t)"
    using assms(2) by (auto simp: tasks_ready_def)
  obtain b where tick: "video_tick width height u ?g (mt_wire t) = (?g\<lparr>vg_buf := Some b, vg_seq := vg_seq ?g + 1\<rparr>,
       (mt_wire t)\<lparr>tx := tx (mt_wire t) @ record_bytes \<lparr> mf_header = video_header width height (vg_seq ?g) u, mf_payload = b \<rparr>\<rparr>)"
    and b: "length b = frame_size width height"
      "\<forall>y < unat height. \<forall>x < unat width. b ! (y * unat width + x) = word_of_nat (x + y + unat (vg_seq ?g))"
    using video_tick_ok [OF r(1-4)] by blast
  let ?f = "\<lparr> mf_header = video_header width height (vg_seq ?g) u, mf_payload = b \<rparr>"
  obtain fr where fr: "ingest_frame passthrough_decode ?f () = (Inr (Some fr), ())" "shows_gradient fr"
    "fr_seq fr = vg_seq ?g" "fr_pts_usec fr = u"
    using video_record_ingested [OF b] by blast
  have "\<not> is_filler ?f"
    using video_seq_plain(1) [OF assms(3)] r(5) by (simp add: is_filler_def video_header_def)
  moreover have "tasks_ready width height (Suc m) (take_turn width height (VideoTurn u) t)"
    using tick r b(1) by (simp add: tasks_ready_def)
  ultimately show thesis
    using that [OF refl, of ?f fr] tick fr r(5) video_record_ok [OF assms(1) b(1)] by simp
qed

lemma ramp_turn_step:
  assumes "tasks_ready width height m t" and "mt_ramp t = f # fs"
  shows "take_turn width height RampTurn t =
    t\<lparr>mt_ramp := fs, mt_wire := (mt_wire t)\<lparr>tx := tx (mt_wire t) @ record_bytes f\<rparr>\<rparr>"
    and "tasks_ready width height m (take_turn width height RampTurn t)" and "record_ok f" and "is_filler f"
  using assms by (simp_all add: tasks_ready_def write_media_frame_ok record_bytes_def)

lemma run_turns_scheduled:
  assumes "sized width height" and "tasks_ready width height m t"
    and "m + length (video_stamps turns) \<le> 0xFFFF0000"
  shows "\<exists>fs frames. scheduled t (run_turns width height turns t) m (video_stamps turns) fs frames"
  using assms(2-)
proof (induction turns arbitrary: t m rule: video_stamps.induct)
  case 1
  then show ?case
    by (intro exI [of _ "[]"]) (simp add: run_turns_def scheduled_def plays_Nil)
next
  case (2 u ts)
  then have m: "m < 0xFFFF0000" "Suc m + length (video_stamps ts) \<le> 0xFFFF0000" by simp_all
  obtain t1 f fr where t1: "take_turn width height (VideoTurn u) t = t1" "tasks_ready width height (Suc m) t1"
    "mt_ramp t1 = mt_ramp t" "mt_wire t1 = (mt_wire t)\<lparr>tx := tx (mt_wire t) @ record_bytes f\<rparr>"
    and f: "record_ok f" "\<not> is_filler f" "ingest_frame passthrough_decode f () = (Inr (Some fr), ())"
    "shows_gradient fr" "fr_seq fr = word_of_nat m" "fr_pts_usec fr = u"
    using video_turn [OF assms(1) "2.prems"(1) m(1)] by metis
  obtain fs frames where ih: "scheduled t1 (run_turns width height ts t1) (Suc m) (video_stamps ts) fs frames"
    using "2.IH" [OF t1(2) m(2)] by blast
  have "scheduled t (run_turns width height ts t1) m (u # video_stamps ts) (f # fs) (fr # frames)"
    using ih t1(3,4) f plays_video [OF f(3,2)]
    by (simp add: scheduled_def upt_conv_Cons del: upt_Suc)
  then show ?case using t1(1) by (auto simp: run_turns_def)
next
  case (3 ts)
  show ?case
  proof (cases "mt_ramp t")
    case Nil
    then have "take_turn width height RampTurn t = t" by simp
    then show ?thesis using "3.IH" [OF "3.prems"(1)] "3.prems"(2) by (simp add: run_turns_def)
  next
    case (Cons f fs0)
    note r = ramp_turn_step [OF "3.prems"(1) Cons]
    let ?t1 = "take_turn width height RampTurn t"
    obtain fs frames where ih: "scheduled ?t1 (run_turns width height ts ?t1) m (video_stamps ts) fs frames"
      using "3.IH" [OF r(2)] "3.prems"(2) by auto
    have "scheduled t (run_turns width height ts ?t1) m (video_stamps ts) (f # fs) frames"
      using ih r(1,3,4) Cons plays_filler [OF r(4)] by (simp add: scheduled_def)
    then show ?thesis by (auto simp: run_turns_def)
  qed
qed

text \<open>As many turns as the ramp has records finish it, and leave the rest of the schedule ready.\<close>

lemma ramp_turns_finish:
  assumes "tasks_ready width height m t"
  shows "mt_ramp (run_turns width height (replicate (length (mt_ramp t)) RampTurn) t) = []"
  using assms
proof (induction "mt_ramp t" arbitrary: t)
  case (Cons f fs)
  note r = ramp_turn_step [OF Cons.prems Cons.hyps(2) [symmetric]]
  have "fs = mt_ramp (take_turn width height RampTurn t)" using r(1) by simp
  from Cons.hyps(1) [OF this r(2)] show ?case
    using r(1) Cons.hyps(2) [symmetric] by (simp add: run_turns_def)
qed (simp add: run_turns_def)

text \<open>Left alone, the ramp task writes its records as one loop does, failures included.\<close>

lemma idle_turns: "mt_ramp t = [] \<Longrightarrow> run_turns width height (replicate n RampTurn) t = t"
proof (induction n)
  case (Suc n)
  then have "take_turn width height RampTurn t = t" by simp
  then show ?case using Suc by (simp add: run_turns_def del: take_turn.simps)
qed (simp add: run_turns_def)

lemma ramp_alone:
  "mt_wire (run_turns width height (replicate (length (mt_ramp t)) RampTurn) t) = snd (write_records (mt_ramp t) (mt_wire t))"
proof (induction "mt_ramp t" arbitrary: t)
  case Nil
  then show ?case by (simp flip: Nil add: run_turns_def)
next
  case (Cons f fs)
  let ?t = "take_turn width height RampTurn t"
  have run: "run_turns width height (replicate (length (mt_ramp t)) RampTurn) t =
      run_turns width height (replicate (length fs) RampTurn) ?t"
    by (simp flip: Cons.hyps(2) add: run_turns_def)
  obtain r w where w: "write_media_frame (mf_header f) (mf_payload f) (mt_wire t) = (r, w)" by fastforce
  show ?case
  proof (cases r)
    case (Inl e)
    then have "mt_ramp ?t = []" "mt_wire ?t = w" using w by (simp_all flip: Cons.hyps(2))
    then show ?thesis unfolding run using w Inl by (simp flip: Cons.hyps(2) add: idle_turns)
  next
    case (Inr u)
    then have "fs = mt_ramp ?t" "mt_wire ?t = w" using w by (simp_all flip: Cons.hyps(2))
    then show ?thesis unfolding run using Cons.hyps(1) [of ?t] w Inr by (simp flip: Cons.hyps(2))
  qed
qed

lemma ramp_after_video:
  assumes "mt_ramp t = []"
  shows "mt_ramp (take_turn width height turn t) = []"
  using assms by (cases turn) (simp_all split: prod.split)

section \<open>The desktop takes them apart\<close>

definition media_start :: "(nat \<Rightarrow> nat \<Rightarrow> u64) \<Rightarrow> u16 \<Rightarrow> u16 \<Rightarrow> u32 \<Rightarrow> wire \<Rightarrow> media_tasks" where
  "media_start clock width height fps w =
     \<lparr> mt_video = video_start width height fps, mt_ramp = speedtest_ramp clock width height, mt_wire = w \<rparr>"

text \<open>C8. The speedtest runs beside the video: for frames of at most 16 MiB and a rate that is not
  zero, and for every schedule of the two tasks, the desktop's pipeline gives every sink exactly
  the video, one frame per turn, in order, with consecutive sequence numbers from 0, the phone's
  time stamps and the gradient of its own number, and the counter exactly the records of the ramp
  sent so far; when the ramp has finished, the counter holds for every step exactly the frames of
  that step times the frame size.\<close>

theorem speedtest_beside_video:
  assumes "sized width height" and "fps \<noteq> 0" and "length (video_stamps turns) \<le> 0xFFFF0000"
    and "tx_room w = None" and "tx w = []"
    and "t = run_turns width height turns (media_start clock width height fps w)"
    and "rx (ms_wire s) = tx (mt_wire t)" and "\<not> rx_eof (ms_wire s)"
    and "pl_sinks p = replicate k []" and "pl_counter p = Some []"
    and "pipeline_loop recording passthrough_decode s p = (e, s', p')"
  shows "e = Waiting \<and>
    (\<exists>frames. pl_sinks p' = replicate k frames \<and>
       map fr_seq frames = map word_of_nat [0..<length (video_stamps turns)] \<and>
       map fr_pts_usec frames = video_stamps turns \<and> list_all shows_gradient frames) \<and>
    (\<exists>c. pl_counter p' = Some c \<and>
       c @ map arrival_of (mt_ramp t) = map arrival_of (speedtest_ramp clock width height) \<and>
       (mt_ramp t = [] \<longrightarrow> (\<forall>i < length (sp_steps_kbps default_ramp).
          unat (so_received_bytes (ramp_observations c ! i)) =
            step_frames width height (sp_steps_kbps default_ramp ! i) * frame_size width height)))"
proof -
  let ?t0 = "media_start clock width height fps w"
  have "tasks_ready width height 0 ?t0"
    using assms(1,2,4) ramp_record_ok ramp_filler
    by (auto simp: media_start_def tasks_ready_def video_start_def video_period_def list_all_iff)
  from run_turns_scheduled [OF assms(1) this, of turns] assms(3,6) obtain fs frames
    where "scheduled ?t0 t 0 (video_stamps turns) fs frames" by auto
  then have wire: "tx (mt_wire t) = concat (map record_bytes fs)" and ok: "list_all record_ok fs"
    and ramp: "speedtest_ramp clock width height = filter is_filler fs @ mt_ramp t" and plays: "plays fs frames"
    and fr: "map fr_seq frames = map word_of_nat [0..<length (video_stamps turns)]"
      "map fr_pts_usec frames = video_stamps turns" "list_all shows_gradient frames"
    using assms(5) by (simp_all add: scheduled_def media_start_def)
  have run: "e = Waiting \<and> p' = fold (pipeline_frame recording passthrough_decode) fs p"
    using pipeline_loop_records [OF ok, of s "[]" recording passthrough_decode p] assms(7,8,11) wire
    by (simp add: pipeline_loop_starved starved_def HEADER_LEN_def)
  have "pl_counter p' = Some (map arrival_of (filter is_filler fs))"
    using run assms(10) by (simp add: pipeline_frames_counter)
  moreover have "pl_sinks p' = replicate k frames"
    using run plays assms(9) by (fastforce simp: plays_def)
  ultimately show ?thesis
    using run fr ramp ramp_bytes_measured [OF assms(1), of _ clock] by auto
qed

text \<open>A schedule with a frame of video before and one after the ramp.\<close>

definition demo_turns :: "media_turn list" where
  "demo_turns = VideoTurn 5 # replicate (length (speedtest_ramp (\<lambda>i j. 0) 1280 720)) RampTurn @ [VideoTurn 6]"

lemma demo_turns_facts:
  "video_stamps demo_turns = [5, 6]"
  "mt_ramp (run_turns 1280 720 demo_turns (media_start (\<lambda>i j. 0) 1280 720 30 fresh_wire)) = []"
proof -
  have "video_stamps (replicate n RampTurn @ ts) = video_stamps ts" for n ts by (induction n) simp_all
  then show "video_stamps demo_turns = [5, 6]" by (simp add: demo_turns_def)
  let ?t0 = "media_start (\<lambda>i j. 0) 1280 720 30 fresh_wire"
  have s: "sized 1280 720" by (simp add: sized_def frame_size_def MAX_FRAME_BYTES_def)
  have "tasks_ready 1280 720 0 ?t0"
    using ramp_record_ok [OF s] ramp_filler
    by (auto simp: media_start_def tasks_ready_def video_start_def video_period_def list_all_iff fresh_wire_def)
  from video_turn [OF s this, of 5] obtain t1
    where t1: "take_turn 1280 720 (VideoTurn 5) ?t0 = t1" "tasks_ready 1280 720 (Suc 0) t1" "mt_ramp t1 = mt_ramp ?t0"
    by auto
  have "length (speedtest_ramp (\<lambda>i j. 0) 1280 720) = length (mt_ramp t1)" using t1(3) by (simp add: media_start_def)
  then show "mt_ramp (run_turns 1280 720 demo_turns ?t0) = []"
    using ramp_after_video [OF ramp_turns_finish [OF t1(2)]]
    by (simp add: demo_turns_def run_turns_def t1(1) del: take_turn.simps)
qed

theorem speedtest_beside_video_witness:
  "\<exists>p' frames c. p' = snd (snd (pipeline_loop recording passthrough_decode
      (media_over (fresh_wire\<lparr>rx := tx (mt_wire (run_turns 1280 720 demo_turns
         (media_start (\<lambda>i j. 0) 1280 720 30 fresh_wire)))\<rparr>))
      \<lparr> pl_sinks = [[], []], pl_decoder = (), pl_counter = Some [] \<rparr>)) \<and>
    pl_sinks p' = [frames, frames] \<and> map fr_pts_usec frames = [5, 6] \<and>
    pl_counter p' = Some c \<and> unat (so_received_bytes (ramp_observations c ! 0)) = 2764800"
proof -
  let ?t = "run_turns 1280 720 demo_turns (media_start (\<lambda>i j. 0) 1280 720 30 fresh_wire)"
  let ?s = "media_over (fresh_wire\<lparr>rx := tx (mt_wire ?t)\<rparr>)"
  let ?p = "\<lparr> pl_sinks = [[], []], pl_decoder = (), pl_counter = Some [] \<rparr>"
  let ?run = "pipeline_loop recording passthrough_decode ?s ?p"
  have h: "sized 1280 720" "(30 :: u32) \<noteq> 0" "length (video_stamps demo_turns) \<le> 0xFFFF0000" "tx_room fresh_wire = None"
    "tx fresh_wire = []" "rx (ms_wire ?s) = tx (mt_wire ?t)" "\<not> rx_eof (ms_wire ?s)" "pl_counter ?p = Some []"
    by (simp_all add: sized_def frame_size_def MAX_FRAME_BYTES_def fresh_wire_def media_over_def demo_turns_facts)
  have p: "pl_sinks ?p = replicate 2 []" by (simp add: numeral_2_eq_2)
  have r: "?run = (fst ?run, fst (snd ?run), snd (snd ?run))" by simp
  from speedtest_beside_video [OF h(1-5) refl h(6,7) p h(8) r]
  obtain frames c where "pl_sinks (snd (snd ?run)) = replicate 2 frames" "map fr_pts_usec frames = video_stamps demo_turns"
    "pl_counter (snd (snd ?run)) = Some c"
    "\<forall>i < length (sp_steps_kbps default_ramp). unat (so_received_bytes (ramp_observations c ! i)) =
        step_frames 1280 720 (sp_steps_kbps default_ramp ! i) * frame_size 1280 720"
    using demo_turns_facts(2) by (elim conjE exE) blast
  moreover have "0 < length (sp_steps_kbps default_ramp)"
    by (simp add: default_ramp_def DEFAULT_RAMP_KBPS_def)
  ultimately show ?thesis using first_step_720p demo_turns_facts(1) by (auto simp: numeral_2_eq_2)
qed

end
