(* ===== verification/Desktop_Shell.thy ===== *)
theory Desktop_Shell
  imports App_Commands
begin

text \<open>
  The desktop shell (\<open>src-tauri/src/\<close>): the commands the user interface calls
  (\<open>commands.rs\<close>), the pump that turns the core's events into events of the window
  (\<open>events.rs\<close>) and the preview sink with its NV12 to RGB conversion (\<open>preview.rs\<close>). The QR
  code, the resampling and JPEG encoding of the image crate, and the operating system's answers
  are arguments.

  The theorems: the preview converts every frame of even size without an index out of bounds
  and exactly those, it emits at most one frame per 33 ms, the window hears of a change of
  transport exactly when the transport changes, and the trusted flag of a device follows the
  pairing store.
\<close>

section \<open>Events\<close>

datatype ui_event =
    UiTransportChanged string
  | UiState session_state_kind
  | UiDevice device_snapshot
  | UiTelemetry telemetry
  | UiClosed string
  | UiUsbTrustRequest string
  | UiModeApplied mode

fun transport_hint :: "session_state_kind \<Rightarrow> string option" where
  "transport_hint WifiHandshake = Some ''wifi''"
| "transport_hint (UsbHandshake udid) = Some ''usb''"
| "transport_hint (StReady (Some TagWifi)) = Some ''wifi''"
| "transport_hint (StReady (Some TagUsb)) = Some ''usb''"
| "transport_hint _ = None"

text \<open>The pump's body for one event: the last transport and the events emitted.\<close>

definition pump_event :: "control_plane_event \<Rightarrow> string option \<Rightarrow> string option \<times> ui_event list" where
  "pump_event ev last_transport =
     (case ev of
        EvStateChanged kind \<Rightarrow>
          (case transport_hint kind of
             Some hint \<Rightarrow>
               if Some hint \<noteq> last_transport
               then (Some hint, [UiTransportChanged hint, UiState kind])
               else (last_transport, [UiState kind])
           | None \<Rightarrow> (last_transport, [UiState kind]))
      | EvDeviceInfo d \<Rightarrow> (last_transport, [UiDevice d])
      | EvTelemetry t \<Rightarrow> (last_transport, [UiTelemetry t])
      | EvClosed reason \<Rightarrow> (last_transport, [UiClosed reason])
      | EvUsbTrustRequest udid \<Rightarrow> (last_transport, [UiUsbTrustRequest udid])
      | EvModeApplied mode \<Rightarrow> (last_transport, [UiModeApplied mode]))"

fun pump :: "control_plane_event list \<Rightarrow> string option \<Rightarrow> string option \<times> ui_event list" where
  "pump [] last_transport = (last_transport, [])"
| "pump (ev # evs) last_transport =
     (case pump_event ev last_transport of
        (l1, out) \<Rightarrow> (case pump evs l1 of (l2, outs) \<Rightarrow> (l2, out @ outs)))"

section \<open>Commands\<close>

record qr_payload_out = qr_payload +
  qr_svg :: string

text \<open>The shell's state: the server it holds, and the servers it let go of, whose session tasks go
  on; the flag says whether the accept loop still runs too.\<close>

record 'k shell =
  sh_running :: "'k app_handle option"
  sh_detached :: "(bool \<times> 'k app_handle) list"

datatype shell_error =
    AlreadyRunning
  | StartFailed string
  | QrFailed string
  | NoSession
  | CoreError app_error
  | ShUsb usb_transport_error
  | ShPairing pairing_store_error

text \<open>The JSON object the QR code carries.\<close>

definition qr_json :: "qr_payload \<Rightarrow> json" where
  "qr_json qr = JObj [(''v'', enc_uint (qr_v qr)), (''host'', JStr (qr_host qr)),
     (''cport'', enc_uint (qr_cport qr)), (''mport'', enc_uint (qr_mport qr)), (''token'', JStr (qr_token qr))]"

text \<open>\<open>start_server\<close>, given the local address, the token's random bytes, the bound ports, and the QR
  encoder with its renderer.\<close>

definition start_server ::
    "(json \<Rightarrow> string + string) \<Rightarrow> string option \<Rightarrow> bytes \<Rightarrow> string + u16 \<times> u16 \<Rightarrow> 'k \<Rightarrow> 'k shell
     \<Rightarrow> (shell_error + qr_payload_out) \<times> 'k shell" where
  "start_server qr_encode local_host token_bytes bound preview sh =
     (if sh_running sh \<noteq> None then (Inl AlreadyRunning, sh)
      else
        let host = (case local_host of Some h \<Rightarrow> h | None \<Rightarrow> ''127.0.0.1'') in
        case bound of
          Inl e \<Rightarrow> (Inl (StartFailed e), sh)
        | Inr (cport, mport) \<Rightarrow>
            let handle = register_sink preview (app_start host token_bytes cport mport); qr = ap_qr handle in
            (case qr_encode (qr_json qr) of
               Inl e \<Rightarrow> (Inl (QrFailed e), sh\<lparr>sh_detached := sh_detached sh @ [(True, handle)]\<rparr>)
             | Inr svg \<Rightarrow>
                 (Inr \<lparr> qr_v = qr_v qr, qr_host = qr_host qr, qr_cport = qr_cport qr, qr_mport = qr_mport qr,
                        qr_token = qr_token qr, qr_svg = svg \<rparr>,
                  sh\<lparr>sh_running := Some handle\<rparr>)))"

definition stop_server :: "'k shell \<Rightarrow> 'k shell" where
  "stop_server sh =
     (case sh_running sh of
        Some h \<Rightarrow> sh\<lparr>sh_running := None, sh_detached := sh_detached sh @ [(False, h)]\<rparr>
      | None \<Rightarrow> sh)"

definition get_snapshot :: "'k shell \<Rightarrow> session_snapshot" where
  "get_snapshot sh = (case sh_running sh of Some h \<Rightarrow> ap_snapshot h | None \<Rightarrow> snapshot_idle)"

definition cmd_set_camera :: "string \<Rightarrow> 'k shell \<Rightarrow> (shell_error + unit) \<times> 'k shell" where
  "cmd_set_camera cid sh =
     (case sh_running sh of
        Some h \<Rightarrow>
          (case set_camera cid h of
             (Inl e, h') \<Rightarrow> (Inl (CoreError e), sh\<lparr>sh_running := Some h'\<rparr>)
           | (Inr _, h') \<Rightarrow> (Inr (), sh\<lparr>sh_running := Some h'\<rparr>))
      | None \<Rightarrow> (Inl NoSession, sh))"

record usb_device_dto =
  dto_id :: u32
  dto_udid :: string
  dto_product_id :: "u16 option"
  dto_trusted :: bool

fun list_usb_loop :: "pairing_codec \<Rightarrow> pairing_store \<Rightarrow> usb_device list \<Rightarrow> shell_error + usb_device_dto list" where
  "list_usb_loop C store [] = Inr []"
| "list_usb_loop C store (d # ds) =
     (case store_get C (ud_udid d) store of
        Inl e \<Rightarrow> Inl (ShPairing e)
      | Inr k \<Rightarrow>
          (case list_usb_loop C store ds of
             Inl e \<Rightarrow> Inl e
           | Inr out \<Rightarrow>
               Inr (\<lparr> dto_id = ud_id d, dto_udid = ud_udid d, dto_product_id = ud_product_id d,
                      dto_trusted = (k \<noteq> None) \<rparr> # out)))"

definition list_usb_devices ::
    "pairing_codec \<Rightarrow> usb_transport_error + usb_device list \<Rightarrow> pairing_store \<Rightarrow> shell_error + usb_device_dto list" where
  "list_usb_devices C devices store =
     (case devices of Inl e \<Rightarrow> Inl (ShUsb e) | Inr ds \<Rightarrow> list_usb_loop C store ds)"

text \<open>\<open>trust_usb_device\<close> with the random bytes of the new key, and the time.\<close>

definition trust_usb_device ::
    "pairing_codec \<Rightarrow> string \<Rightarrow> pairing_material \<Rightarrow> string \<Rightarrow> pairing_store \<Rightarrow> disk
     \<Rightarrow> (shell_error + unit) \<times> pairing_store \<times> disk" where
  "trust_usb_device C now key udid store d =
     (case store_put C now udid key store d of
        (Inl e, st, d') \<Rightarrow> (Inl (ShPairing e), st, d')
      | (Inr _, st, d') \<Rightarrow> (Inr (), st, d'))"

definition forget_usb_device ::
    "pairing_codec \<Rightarrow> string \<Rightarrow> pairing_store \<Rightarrow> disk \<Rightarrow> (shell_error + unit) \<times> pairing_store \<times> disk" where
  "forget_usb_device C udid store d =
     (case store_forget C udid store d of
        (Inl e, st, d') \<Rightarrow> (Inl (ShPairing e), st, d')
      | (Inr _, st, d') \<Rightarrow> (Inr (), st, d'))"

section \<open>Preview\<close>

definition MAX_PREVIEW_WIDTH :: nat where
  "MAX_PREVIEW_WIDTH = 720"

definition MIN_EMIT_INTERVAL_MS :: nat where
  "MIN_EMIT_INTERVAL_MS = 33"

definition f64_clamp :: "f64 \<Rightarrow> f64 \<Rightarrow> f64 \<Rightarrow> f64" where
  "f64_clamp lo hi x = (if x < lo then lo else if hi < x then hi else x)"

definition pixel_rgb :: "bool \<Rightarrow> u8 \<Rightarrow> u8 \<Rightarrow> u8 \<Rightarrow> u8 list" where
  "pixel_rgb full_range y_byte cb_byte cr_byte =
     (let y_val = f64_of_int (uint y_byte); cb = f64_of_int (uint cb_byte); cr = f64_of_int (uint cr_byte);
          cbv = cb - Fin 128; crv = cr - Fin 128;
          yv = (if full_range then y_val else f64_lit (1164 / 1000) * (y_val - Fin 16));
          r = f64_clamp (Fin 0) (Fin 255) (yv + f64_lit (1596 / 1000) * crv);
          g = f64_clamp (Fin 0) (Fin 255) (yv - f64_lit (392 / 1000) * cbv - f64_lit (813 / 1000) * crv);
          b = f64_clamp (Fin 0) (Fin 255) (yv + f64_lit (2017 / 1000) * cbv)
      in [f64_as_u8 r, f64_as_u8 g, f64_as_u8 b])"

text \<open>An indexed read; \<open>None\<close> is the panic out of bounds.\<close>

definition byte_at :: "bytes \<Rightarrow> nat \<Rightarrow> u8 option" where
  "byte_at bs i = (if i < length bs then Some (bs ! i) else None)"

definition pixel_at :: "frame_rec \<Rightarrow> nat \<Rightarrow> nat \<Rightarrow> u8 list option" where
  "pixel_at f y x =
     (let w = unat (fr_width f); uv_idx = y div 2 * w + x div 2 * 2 in
      Option.bind (byte_at (fr_plane_y f) (y * w + x)) (\<lambda>yb.
      Option.bind (byte_at (fr_plane_uv f) uv_idx) (\<lambda>cb.
      Option.bind (byte_at (fr_plane_uv f) (uv_idx + 1)) (\<lambda>cr.
      Some (pixel_rgb (fr_full_range f) yb cb cr)))))"

text \<open>The two loops over the pixels, in row order.\<close>

fun collect_pixels :: "frame_rec \<Rightarrow> (nat \<times> nat) list \<Rightarrow> bytes option" where
  "collect_pixels f [] = Some []"
| "collect_pixels f ((y, x) # ps) =
     Option.bind (pixel_at f y x) (\<lambda>px. Option.bind (collect_pixels f ps) (\<lambda>rest. Some (px @ rest)))"

definition pixel_order :: "nat \<Rightarrow> nat \<Rightarrow> (nat \<times> nat) list" where
  "pixel_order w h = concat (map (\<lambda>y. map (\<lambda>x. (y, x)) [0..<w]) [0..<h])"

definition nv12_to_rgb :: "frame_rec \<Rightarrow> bytes option" where
  "nv12_to_rgb f = collect_pixels f (pixel_order (unat (fr_width f)) (unat (fr_height f)))"

text \<open>The image crate: the resampling of RGB pixels from one size to another, and the JPEG encoder,
  which may fail.\<close>

record image_crate =
  img_resize :: "bytes \<Rightarrow> nat \<times> nat \<Rightarrow> nat \<times> nat \<Rightarrow> bytes"
  img_encode :: "bytes \<Rightarrow> nat \<times> nat \<Rightarrow> bytes option"

text \<open>The height after downscaling, in single precision: rounded to 24 bits twice. Both sizes convert
  exactly, and no value here leaves the normal range.\<close>

definition f32_round :: "rat \<Rightarrow> rat" where
  "f32_round x = (if x = 0 then 0
     else let e = max (- 149) (rat_exp \<bar>x\<bar> - 23) in of_int (round_half_even (x / pow2 e)) * pow2 e)"

definition scaled_height :: "nat \<Rightarrow> nat \<Rightarrow> nat" where
  "scaled_height w h =
     (let scale = f32_round (of_nat MAX_PREVIEW_WIDTH / of_nat w) in nat \<lfloor>f32_round (of_nat h * scale)\<rfloor>)"

definition fit_preview :: "image_crate \<Rightarrow> bytes \<Rightarrow> nat \<Rightarrow> nat \<Rightarrow> bytes \<times> nat \<times> nat" where
  "fit_preview I rgb w h =
     (if MAX_PREVIEW_WIDTH < w
      then let new_w = MAX_PREVIEW_WIDTH; new_h = scaled_height w h
           in (img_resize I rgb (w, h) (new_w, new_h), new_w, new_h)
      else (rgb, w, h))"

record preview_event =
  pv_seq :: u32
  pv_pts_usec :: u64
  pv_width :: nat
  pv_height :: nat
  pv_jpeg :: bytes

text \<open>A panic in the conversion and an encoder error both give no result.\<close>

definition nv12_to_jpeg :: "image_crate \<Rightarrow> frame_rec \<Rightarrow> preview_event option" where
  "nv12_to_jpeg I f =
     Option.bind (nv12_to_rgb f) (\<lambda>rgb.
     case fit_preview I rgb (unat (fr_width f)) (unat (fr_height f)) of (pixels, w, h) \<Rightarrow>
     Option.bind (img_encode I pixels (w, h)) (\<lambda>jpeg.
     Some \<lparr> pv_seq = fr_seq f, pv_pts_usec = fr_pts_usec f, pv_width = w, pv_height = h, pv_jpeg = jpeg \<rparr>))"

record preview_sink =
  pk_last_emit :: instant
  pk_emitted :: "(instant \<times> preview_event option) list"

text \<open>A new sink may emit at once: its last emission is a second ago.\<close>

definition preview_new :: "instant \<Rightarrow> preview_sink" where
  "preview_new now = \<lparr> pk_last_emit = now - from_secs 1, pk_emitted = [] \<rparr>"

text \<open>\<open>submit\<close> at the instant \<open>now\<close>; the frames that pass the throttle are recorded with what was
  emitted for them.\<close>

definition preview_submit :: "image_crate \<Rightarrow> instant \<Rightarrow> frame_rec \<Rightarrow> preview_sink \<Rightarrow> preview_sink" where
  "preview_submit I now f k =
     (if as_millis (duration_since now (pk_last_emit k)) < MIN_EMIT_INTERVAL_MS then k
      else k\<lparr>pk_last_emit := now, pk_emitted := pk_emitted k @ [(now, nv12_to_jpeg I f)]\<rparr>)"

section \<open>The preview conversion\<close>

lemma length_pixel_rgb: "length (pixel_rgb r y cb cr) = 3"
  by (simp add: pixel_rgb_def Let_def)

lemma collect_pixels_Some:
  "collect_pixels f ps \<noteq> None \<longleftrightarrow> (\<forall>(y, x) \<in> set ps. pixel_at f y x \<noteq> None)"
  by (induction ps rule: collect_pixels.induct) (auto simp: Option.bind_eq_None_conv)

lemma collect_pixels_length: "collect_pixels f ps = Some rgb \<Longrightarrow> length rgb = 3 * length ps"
proof (induction ps arbitrary: rgb)
  case (Cons p ps)
  obtain y x where p: "p = (y, x)" by fastforce
  from Cons.prems p obtain px rest where "pixel_at f y x = Some px" "collect_pixels f ps = Some rest" "rgb = px @ rest"
    by (auto simp: Option.bind_eq_Some_conv)
  moreover from this have "length px = 3"
    by (auto simp: pixel_at_def Let_def Option.bind_eq_Some_conv length_pixel_rgb)
  ultimately show ?case using Cons.IH by simp
qed simp

lemma set_pixel_order: "set (pixel_order w h) = {0..<h} \<times> {0..<w}"
  by (auto simp: pixel_order_def)

lemma length_pixel_order: "length (pixel_order w h) = h * w"
  by (simp add: pixel_order_def length_concat comp_def sum_list_triv)

lemma pixel_at_Some:
  assumes "nv12_sized f" and "y < unat (fr_height f)" and "x < unat (fr_width f)"
  shows "pixel_at f y x \<noteq> None \<longleftrightarrow>
    y div 2 * unat (fr_width f) + x div 2 * 2 + 1 < unat (fr_width f) * unat (fr_height f) div 2"
proof -
  have "y * unat (fr_width f) + x < unat (fr_width f) * unat (fr_height f)"
    using mult_le_mono1 [of "Suc y" "unat (fr_height f)" "unat (fr_width f)"] assms(2,3) by (simp add: mult.commute)
  then show ?thesis using assms(1) by (auto simp: pixel_at_def byte_at_def nv12_sized_def Let_def)
qed

text \<open>Chroma indices: in bounds for every pixel of an even size, out of bounds for the last pixel
  of any other.\<close>

lemma chroma_in_bounds:
  fixes w h :: nat
  assumes "even w" "even h" "y < h" "x < w"
  shows "y div 2 * w + x div 2 * 2 + 1 < w * h div 2"
proof -
  obtain a b where ab: "w = 2 * a" "h = 2 * b" using assms(1,2) by (auto elim!: evenE)
  have "x div 2 * 2 + 1 < 2 * a" "Suc (y div 2) \<le> b" using assms(3,4) ab by presburger+
  then have "y div 2 * (2 * a) + (x div 2 * 2 + 1) < y div 2 * (2 * a) + 2 * a"
    and "Suc (y div 2) * (2 * a) \<le> b * (2 * a)"
    by (simp_all only: add_less_cancel_left mult_le_mono1)
  then show ?thesis using ab by (simp add: mult.commute [of b])
qed

lemma chroma_out_of_bounds:
  fixes w h :: nat
  assumes "0 < w" "0 < h" "odd w \<or> odd h"
  shows "w * h div 2 \<le> (h - 1) div 2 * w + (w - 1) div 2 * 2 + 1"
proof (cases "even h")
  case True
  then obtain b where b: "h = 2 * b" by (auto elim!: evenE)
  obtain c where c: "b = Suc c" using assms(2) b by (cases b) auto
  obtain a where a: "w = 2 * a + 1" using assms(3) True by (auto elim!: oddE)
  show ?thesis by (simp add: a b c)
next
  case False
  then obtain b where b: "h = 2 * b + 1" by (auto elim!: oddE)
  have "w * h div 2 = b * w + w div 2"
    using div_mult_self1 [of 2 w "b * w"] by (simp add: b algebra_simps)
  moreover have "w div 2 \<le> (w - 1) div 2 * 2 + 1" using assms(1) by presburger
  ultimately show ?thesis by (simp add: b)
qed

section \<open>Properties\<close>

text \<open>C35. The preview converts exactly the frames of even size: for a frame whose planes have the
  announced size, the conversion reads within both planes if and only if width and height are
  even (or a dimension is zero), and then gives three bytes per pixel, as the image buffer
  expects; for any other size it panics.\<close>

theorem preview_in_bounds_iff_even:
  assumes "nv12_sized f" and "w = unat (fr_width f)" and "h = unat (fr_height f)"
  shows "(\<exists>rgb. nv12_to_rgb f = Some rgb \<and> length rgb = 3 * (h * w)) \<longleftrightarrow> w = 0 \<or> h = 0 \<or> (even w \<and> even h)"
    (is "?some \<longleftrightarrow> ?even")
proof -
  have some: "?some \<longleftrightarrow> (\<forall>(y, x) \<in> set (pixel_order w h). pixel_at f y x \<noteq> None)"
    using collect_pixels_Some [of f "pixel_order w h"] collect_pixels_length [of f "pixel_order w h"]
    by (auto simp: nv12_to_rgb_def assms(2,3) length_pixel_order)
  have px: "pixel_at f y x \<noteq> None \<longleftrightarrow> y div 2 * w + x div 2 * 2 + 1 < w * h div 2" if "y < h" "x < w" for x y
    using pixel_at_Some [OF assms(1)] that assms(2,3) by simp
  have "?even" if ?some
  proof (rule ccontr)
    assume n: "\<not> ?even"
    then have "(h - 1, w - 1) \<in> set (pixel_order w h)" by (auto simp: set_pixel_order)
    then have "pixel_at f (h - 1) (w - 1) \<noteq> None" using that some by blast
    then show False using px [of "h - 1" "w - 1"] chroma_out_of_bounds [of w h] n by auto
  qed
  moreover have ?some if ?even
    using that some px chroma_in_bounds by (auto simp: set_pixel_order)
  ultimately show ?thesis by blast
qed

definition gray_frame :: "u16 \<Rightarrow> u16 \<Rightarrow> frame_rec" where
  "gray_frame w h = \<lparr> fr_width = w, fr_height = h, fr_pts_usec = 0, fr_seq = 0, fr_codec = CodecRaw,
     fr_plane_y = replicate (unat w * unat h) 16, fr_plane_uv = replicate (unat w * unat h div 2) 128,
     fr_full_range = True \<rparr>"

theorem preview_in_bounds_iff_even_witness:
  "(\<exists>rgb. nv12_to_rgb (gray_frame 2 2) = Some rgb \<and> length rgb = 12) \<and> nv12_to_rgb (gray_frame 3 2) = None"
proof -
  have s: "nv12_sized (gray_frame a b)" for a b by (simp add: nv12_sized_def gray_frame_def)
  have wh: "2 = unat (fr_width (gray_frame 2 2))" "2 = unat (fr_height (gray_frame 2 2))"
    "3 = unat (fr_width (gray_frame 3 2))" "2 = unat (fr_height (gray_frame 3 2))"
    by (simp_all add: gray_frame_def)
  have "\<exists>rgb. nv12_to_rgb (gray_frame 2 2) = Some rgb \<and> length rgb = 3 * (2 * 2)"
    using preview_in_bounds_iff_even [OF s wh(1,2)] by simp
  moreover have "\<not> (\<exists>rgb. nv12_to_rgb (gray_frame 3 2) = Some rgb \<and> length rgb = 3 * (2 * 3))"
    using preview_in_bounds_iff_even [OF s wh(3,4)] by simp
  moreover have "length rgb = 3 * (2 * 3)" if "nv12_to_rgb (gray_frame 3 2) = Some rgb" for rgb
    using collect_pixels_length [OF that [unfolded nv12_to_rgb_def]] wh(3,4) by (simp add: length_pixel_order)
  ultimately show ?thesis by (cases "nv12_to_rgb (gray_frame 3 2)") auto
qed

definition throttled :: "(instant \<times> preview_event option) list \<Rightarrow> bool" where
  "throttled es \<longleftrightarrow> sorted_wrt (\<lambda>a b. fst a + from_millis MIN_EMIT_INTERVAL_MS \<le> fst b) es"

lemma preview_submit_throttled:
  assumes "throttled (pk_emitted k)" and "\<forall>e \<in> set (pk_emitted k). fst e \<le> pk_last_emit k"
  shows "throttled (pk_emitted (preview_submit I now f k)) \<and>
    (\<forall>e \<in> set (pk_emitted (preview_submit I now f k)). fst e \<le> pk_last_emit (preview_submit I now f k))"
proof (cases "as_millis (duration_since now (pk_last_emit k)) < MIN_EMIT_INTERVAL_MS")
  case False
  then have "pk_last_emit k + from_millis MIN_EMIT_INTERVAL_MS \<le> now"
    by (simp add: as_millis_def duration_since_def from_millis_def MIN_EMIT_INTERVAL_MS_def not_less
        Suc_le_eq less_eq_div_iff_mult_less_eq)
  then have "fst e + from_millis MIN_EMIT_INTERVAL_MS \<le> now \<and> fst e \<le> now" if "e \<in> set (pk_emitted k)" for e
    using that assms(2) by fastforce
  then show ?thesis using assms(1) False by (auto simp: preview_submit_def throttled_def sorted_wrt_append)
qed (use assms in \<open>simp add: preview_submit_def\<close>)

text \<open>The preview is throttled: whatever frames arrive whenever, any two emissions are at least
  33 ms apart.\<close>

theorem preview_is_throttled:
  "sorted_wrt (\<lambda>a b. fst a + from_millis 33 \<le> fst b)
     (pk_emitted (fold (\<lambda>(now, f). preview_submit I now f) frames (preview_new start)))"
proof -
  have "throttled (pk_emitted (fold (\<lambda>(now, f). preview_submit I now f) frames k))"
    if "throttled (pk_emitted k)" "\<forall>e \<in> set (pk_emitted k). fst e \<le> pk_last_emit k" for k
    using that
  proof (induction frames arbitrary: k)
    case (Cons x xs)
    then show ?case using preview_submit_throttled [OF Cons.prems] by (cases x) simp
  qed simp
  from this [of "preview_new start"] show ?thesis
    by (simp add: preview_new_def throttled_def MIN_EMIT_INTERVAL_MS_def)
qed

text \<open>Every emitted preview carries the numbering of its frame and is at most 720 pixels wide.\<close>

lemma preview_size:
  assumes "nv12_to_jpeg I f = Some e"
  shows "pv_seq e = fr_seq f \<and> pv_pts_usec e = fr_pts_usec f \<and> pv_width e = min (unat (fr_width f)) 720 \<and>
    (unat (fr_width f) \<le> 720 \<longrightarrow> pv_height e = unat (fr_height f))"
  using assms by (auto simp: nv12_to_jpeg_def fit_preview_def MAX_PREVIEW_WIDTH_def Let_def Option.bind_eq_Some_conv
      split: if_splits)

text \<open>A 1080p frame is previewed at 720 by 405.\<close>

lemma scaled_1080p: "scaled_height 1920 1080 = 405"
proof -
  have "rat_exp (3 / 8) = - 2" "rat_exp 405 = 8"
    by (rule rat_exp_unique; simp add: pow2_def)+
  then have f: "f32_round (3 / 8) = 3 / 8" "f32_round 405 = 405"
    using round_half_even_of_int [of 12582912] round_half_even_of_int [of 13271040]
    by (simp_all add: f32_round_def pow2_def)
  show ?thesis by (simp add: scaled_height_def MAX_PREVIEW_WIDTH_def f)
qed

text \<open>Neutral chroma keeps the luma, in full range.\<close>

lemma gray_is_kept: "pixel_rgb True y 128 128 = [y, y, y]"
proof -
  define n where "n = uint y"
  have n: "0 \<le> n" "n < 256" "word_of_int n = y" using uint_lt2p [of y] by (simp_all add: n_def)
  have i: "f64_round (of_int n) = Fin (of_int n)" using f64_round_int [of n] n by simp
  have z: "f64_round 0 = Fin 0" "f64_round 128 = Fin 128"
    using f64_round_int [of 0] f64_round_int [of 128] by simp_all
  have l: "f64_lit (399 / 250) * Fin 0 = Fin 0" "f64_lit (49 / 125) * Fin 0 = Fin 0"
    "f64_lit (813 / 1000) * Fin 0 = Fin 0" "f64_lit (2017 / 1000) * Fin 0 = Fin 0"
    using f64_round_small(1) [of "399 / 250"] f64_round_small(1) [of "49 / 125"] f64_round_small(1) [of "813 / 1000"]
      f64_round_small(1) [of "2017 / 1000"] z(1) by (simp_all add: times_f64_def)
  have c: "f64_clamp (Fin 0) (Fin 255) (Fin (of_int n)) = Fin (of_int n)"
    using n by (simp add: f64_clamp_def less_f64_def)
  have a: "f64_as_u8 (Fin (of_int n)) = y"
    using n by (simp add: f64_as_u8_def)
  have s: "Fin (of_int n) + Fin 0 = Fin (of_int n)" "Fin (of_int n) - Fin 0 = Fin (of_int n)"
    "Fin 128 - Fin 128 = Fin 0"
    using i z by (simp_all add: plus_f64_def minus_f64_def f64_sub_def)
  show ?thesis
    unfolding pixel_rgb_def Let_def n_def [symmetric] by (simp add: f64_of_int_def i z l c a s)
qed

text \<open>The hints of a sequence of events.\<close>

fun event_hint :: "control_plane_event \<Rightarrow> string option" where
  "event_hint (EvStateChanged kind) = transport_hint kind"
| "event_hint _ = None"

fun transport_of :: "ui_event \<Rightarrow> string option" where
  "transport_of (UiTransportChanged h) = Some h"
| "transport_of _ = None"

lemma pump_event_hint:
  "pump_event ev l = (l', out) \<Longrightarrow>
     (case event_hint ev of
        None \<Rightarrow> l' = l \<and> List.map_filter transport_of out = []
      | Some h \<Rightarrow> l' = Some h \<and> List.map_filter transport_of out = (if Some h = l then [] else [h]))"
proof (cases "event_hint ev")
  case None
  then show "pump_event ev l = (l', out) \<Longrightarrow> ?thesis"
    by (cases ev) (auto simp: pump_event_def List.map_filter_simps)
next
  case (Some h)
  then obtain kind where ev: "ev = EvStateChanged kind" and kind: "transport_hint kind = Some h" by (cases ev) auto
  show "pump_event ev l = (l', out) \<Longrightarrow> ?thesis"
    unfolding Some by (auto simp: ev kind pump_event_def List.map_filter_simps split: if_splits)
qed

lemma map_filter_append: "List.map_filter g (xs @ ys) = List.map_filter g xs @ List.map_filter g ys"
  by (simp add: List.map_filter_def)

lemma pump_hints:
  "List.map_filter transport_of (snd (pump evs l)) =
     (case l of
        None \<Rightarrow> remdups_adj (List.map_filter event_hint evs)
      | Some h \<Rightarrow> tl (remdups_adj (h # List.map_filter event_hint evs)))"
proof (induction evs arbitrary: l)
  case Nil
  then show ?case by (simp add: List.map_filter_simps split: option.split)
next
  case (Cons ev evs)
  obtain l1 out where ev: "pump_event ev l = (l1, out)" by fastforce
  obtain l2 outs where evs: "pump evs l1 = (l2, outs)" by fastforce
  have ih: "List.map_filter transport_of outs = (case l1 of
        None \<Rightarrow> remdups_adj (List.map_filter event_hint evs)
      | Some h \<Rightarrow> tl (remdups_adj (h # List.map_filter event_hint evs)))"
    using Cons.IH [of l1] evs by simp
  have "List.map_filter transport_of (snd (pump (ev # evs) l)) =
      List.map_filter transport_of out @ List.map_filter transport_of outs"
    using ev evs by (simp add: map_filter_append)
  then show ?case
    using pump_event_hint [OF ev] ih
    by (cases "event_hint ev"; cases l) (auto simp: List.map_filter_simps remdups_adj_Cons split: list.splits if_splits)
qed

text \<open>The window follows the transport: over any sequence of core events, the transport-changed
  events it gets are the transports the states name, with immediate repetitions removed, so it
  is told of every change and of nothing else.\<close>

theorem window_follows_transport:
  "List.map_filter transport_of (snd (pump evs None)) = remdups_adj (List.map_filter event_hint evs)"
  using pump_hints [of evs None] by simp

section \<open>Trust\<close>

lemma list_usb_loop_trusted:
  assumes "list_usb_loop C store ds = Inr out"
  shows "map dto_udid out = map ud_udid ds \<and>
    (\<forall>dto \<in> set out. dto_trusted dto \<longleftrightarrow> stored_key store (dto_udid dto) \<noteq> None)"
  using assms
proof (induction ds arbitrary: out)
  case (Cons d ds)
  then obtain k rest where k: "store_get C (ud_udid d) store = Inr k" and r: "list_usb_loop C store ds = Inr rest"
    and out: "out = \<lparr> dto_id = ud_id d, dto_udid = ud_udid d, dto_product_id = ud_product_id d,
                      dto_trusted = (k \<noteq> None) \<rparr> # rest"
    by (auto split: sum.splits)
  have "k \<noteq> None \<longleftrightarrow> stored_key store (ud_udid d) \<noteq> None"
    using k by (cases "ps_data store (ud_udid d)") (auto simp: store_get_def stored_key_def split: sum.splits)
  then show ?case using Cons.IH [OF r] out by simp
qed simp

text \<open>Trust and forget: after the user trusts a device, even if saving failed, the device list
  shows exactly that device and the ones trusted before as trusted; after forgetting it, all but
  that device.\<close>

theorem trusted_flag_follows_store:
  assumes "trust_usb_device C now key udid st d = (r, st1, d1)" and "forget_usb_device C udid st1 d1 = (r', st2, d2)"
    and "list_usb_devices C (Inr ds) st1 = Inr out1" and "list_usb_devices C (Inr ds) st2 = Inr out2"
  shows "map dto_udid out1 = map ud_udid ds \<and> map dto_udid out2 = map ud_udid ds \<and>
    (\<forall>x \<in> set out1. dto_trusted x \<longleftrightarrow> dto_udid x = udid \<or> stored_key st (dto_udid x) \<noteq> None) \<and>
    (\<forall>x \<in> set out2. dto_trusted x \<longleftrightarrow> dto_udid x \<noteq> udid \<and> stored_key st (dto_udid x) \<noteq> None)"
proof -
  obtain q where "store_put C now udid key st d = (q, st1, d1)"
    using assms(1) by (auto simp: trust_usb_device_def split: prod.splits sum.splits)
  then have k1: "stored_key st1 u = stored_key (set_key udid (as_b64 C key) st) u" for u
    by (rule store_put_memory(1))
  obtain q' where "store_forget C udid st1 d1 = (q', st2, d2)"
    using assms(2) by (auto simp: forget_usb_device_def split: prod.splits sum.splits)
  then have k2: "st2 = drop_key udid st1" by (rule store_forget_memory)
  have "stored_key st1 u \<noteq> None \<longleftrightarrow> u = udid \<or> stored_key st u \<noteq> None"
    "stored_key st2 u \<noteq> None \<longleftrightarrow> u \<noteq> udid \<and> stored_key st u \<noteq> None" for u
    using k1 [of u] by (cases "ps_data st u"; auto simp: k2 stored_key_def set_key_def drop_key_def)+
  then show ?thesis
    using list_usb_loop_trusted assms(3,4) unfolding list_usb_devices_def by simp
qed

end
