(* ===== verification/Usb_Session.thy ===== *)
theory Usb_Session
  imports End_To_End Desktop_Shell
begin

text \<open>
  A USB session from the shell to the phone: the user trusts a device, the supervisor dials it,
  the core looks its key up, and the phone, which listens and presents the key it was given,
  gets a session. Before the device is trusted, the same connection only asks the user.
\<close>

text \<open>The streams of a dialled device whose two ports hold what the phone wrote.\<close>

definition usb_ports :: "mock_phone \<Rightarrow> u32 \<Rightarrow> u16 \<Rightarrow> usb_transport_error + wire" where
  "usb_ports phone device_id port =
     (if port = CCP_USB_CONTROL_PORT then Inr (fresh_wire\<lparr>rx := tx (cst_wire (mk_control phone))\<rparr>)
      else if port = CCP_USB_MEDIA_PORT then Inr (fresh_wire\<lparr>rx := tx (ms_wire (mk_media phone))\<rparr>)
      else Inl Unsupported)"

lemma supervise_usb_ports:
  "\<exists>dl. supervise C (usb_ports phone) store (Connected dev) = Some dl \<and> dl_udid dl = ud_udid dev \<and>
     cst_wire (dl_control dl) = fresh_wire\<lparr>rx := tx (cst_wire (mk_control phone))\<rparr> \<and>
     ms_wire (dl_media dl) = fresh_wire\<lparr>rx := tx (ms_wire (mk_media phone))\<rparr>"
  by (simp add: supervise_def open_pair_def usb_ports_def CCP_USB_CONTROL_PORT_def CCP_USB_MEDIA_PORT_def Let_def
      control_from_halves_def media_from_halves_def)

text \<open>The key a device was trusted with is the key the core finds, whether saving succeeded or not.\<close>

lemma trusted_key_found:
  assumes "trust_usb_device C now key udid st d = (r, st1, d1)" and "pc_b64_decode C (pc_b64_encode C key) = Some key"
  shows "store_get C udid st1 = Inr (Some key)"
proof -
  obtain q where "store_put C now udid key st d = (q, st1, d1)"
    using assms(1) by (auto simp: trust_usb_device_def split: prod.splits sum.splits)
  from store_put_memory(1) [OF this, of udid] have "stored_key st1 udid = Some (as_b64 C key)"
    by (simp add: stored_key_def set_key_def)
  then show ?thesis
    using assms(2) by (auto simp: stored_key_def store_get_def from_b64_def as_b64_def)
qed

text \<open>The consumer's run for a phone that presents the stored key.\<close>

lemma usb_dialed_ok:
  assumes "connection_carried J args sid" and "sid = ''sess-'' @ uuid" and "ma_transport args = UsbListener"
    and "phone = connect_phone J args (wire_bytes J ack_env) (wire_bytes J (auth_ok_envelope 2 sid))"
    and "store_get C (dl_udid dl) store = Inr (Some key)" and "ma_token args = as_b64 C key"
    and "cst_wire (dl_control dl) = fresh_wire\<lparr>rx := tx (cst_wire (mk_control phone))\<rparr>"
    and "ms_wire (dl_media dl) = fresh_wire\<lparr>rx := tx (ms_wire (mk_media phone))\<rparr>"
    and "app' = app_usb_dialed C J uuid now store dl app"
  shows "\<exists>se ms. ap_sessions app' = ap_sessions app @ [se] \<and> se_id se = sid \<and> se_flow se = Continue \<and>
     cp_transport (se_cp se) = TagUsb \<and>
     se_media se = Some (ms, \<lparr> pl_sinks = ap_sinks app, pl_decoder = (), pl_counter = Some counter_new \<rparr>) \<and>
     rx (ms_wire ms) = [] \<and> ap_outbound app' = Some (length (ap_sessions app)) \<and>
     ap_speedtest_counter app' = Some (length (ap_sessions app)) \<and>
     cst_wire (cp_control (se_cp se)) = fresh_wire\<lparr>rx := wire_bytes J device_env @ wire_bytes J cameras_env,
        tx := wire_bytes J ack_env @ wire_bytes J (auth_ok_envelope 2 sid)\<rparr>"
proof -
  note phone = connect_phone_ok [OF assms(1)]
  have c: "cst_wire (dl_control dl) = fresh_wire\<lparr>rx := wire_bytes J hello_env @ wire_bytes J (auth_env args) @
      wire_bytes J device_env @ wire_bytes J cameras_env\<rparr>"
    using assms(7) by (simp add: assms(4) phone control_over_def fresh_wire_def)
  have m: "ms_wire (dl_media dl) = fresh_wire\<lparr>rx := wire_bytes J (media_hello_envelope (binding_of args sid))\<rparr>"
    using assms(8) by (simp add: assms(4) phone media_over_def fresh_wire_def)
  have acc: "accept_control_usb J uuid (as_b64 C key) server_caps (dl_control dl) =
      (Inr \<lparr> ac_session_id = sid, ac_token = as_b64 C key, ac_hello = mock_hello \<rparr>,
       exchanged J [ack_env, auth_ok_envelope 2 sid] (wire_bytes J device_env @ wire_bytes J cameras_env) (dl_control dl))"
    using assms(1-3,6) c usb.accept_complete [of J hello_env mock_hello "auth_env args" "as_b64 C key" server_caps uuid
        "dl_control dl" "wire_bytes J device_env @ wire_bytes J cameras_env"]
    by (simp add: connection_carried_def hello_env_def auth_env_def mock_auth_def mock_hello_def ack_env_def fresh_wire_def)
  have hello: "read_media_hello J (dl_media dl) = (Inr (binding_of args sid), (dl_media dl)\<lparr>ms_wire := fresh_wire\<rparr>)"
    using media_hello_carried(2) [of J "binding_of args sid" "dl_media dl" "[]"] assms(1) m
    by (simp add: connection_carried_def fresh_wire_def)
  show ?thesis
    using acc hello assms(5) c
    by (simp add: assms(9) app_usb_dialed_def Let_def set_state_def add_session_def new_session_def cp_start_def
        broadcast_def emit_def exchanged_def fresh_wire_def)
qed

section \<open>Properties\<close>

text \<open>A device that is not trusted is not served: the core asks the user and goes back to idle.\<close>

lemma untrusted_is_asked:
  assumes "stored_key st (dl_udid dl) = None"
  shows "ap_sessions (app_usb_dialed C J uuid now st dl app) = ap_sessions app \<and>
     ap_events (app_usb_dialed C J uuid now st dl app) = ap_events app @ [EvUsbTrustRequest (dl_udid dl)] \<and>
     sn_state (ap_snapshot (app_usb_dialed C J uuid now st dl app)) = Idle"
proof -
  have "store_get C (dl_udid dl) st = Inr None"
    using assms by (simp add: stored_key_def store_get_def)
  then show ?thesis by (simp add: app_usb_dialed_def set_state_def Let_def)
qed

text \<open>C6. Trusting a device lets its phone connect over USB. Before, with no key stored, the dialled
  connection adds no session and asks the user to trust the device. After \<open>trust_usb_device\<close>, the
  same phone, which presents the base64 text of that key, gets a USB session with its media
  pipeline running; two receives later the snapshot is Ready over USB and shows the phone and
  its cameras.\<close>

theorem trusted_phone_connects:
  assumes "connection_carried J args sid" and "sid = ''sess-'' @ uuid" and "ma_transport args = UsbListener"
    and "phone = connect_phone J args (wire_bytes J ack_env) (wire_bytes J (auth_ok_envelope 2 sid))"
    and "stored_key st (ud_udid dev) = None"
    and "trust_usb_device C stamp key (ud_udid dev) st d = (r, st1, d1)"
    and "pc_b64_decode C (pc_b64_encode C key) = Some key" and "ma_token args = as_b64 C key"
    and "supervise C (usb_ports phone) st (Connected dev) = Some dl"
    and "supervise C (usb_ports phone) st1 (Connected dev) = Some dl1"
    and "n = length (ap_sessions app)" and "app0 = app_usb_dialed C J uuid now st dl app"
    and "app1 = app_usb_dialed C J uuid now st1 dl1 app" and "app2 = desktop_listens J n now app1"
  shows "ap_sessions app0 = ap_sessions app \<and> ap_events app0 = ap_events app @ [EvUsbTrustRequest (ud_udid dev)] \<and>
      length (ap_sessions app2) = Suc n \<and> se_id (ap_sessions app1 ! n) = sid \<and>
      se_media (ap_sessions app1 ! n) \<noteq> None \<and>
      cst_wire (cp_control (se_cp (ap_sessions app2 ! n))) =
        fresh_wire\<lparr>tx := wire_bytes J ack_env @ wire_bytes J (auth_ok_envelope 2 sid)\<rparr> \<and>
      sn_state (ap_snapshot app2) = StReady (Some TagUsb) \<and>
      sn_device (ap_snapshot app2) = Some ((from_device_info mock_device_info)\<lparr>ds_cameras := synthetic_cameras\<rparr>)"
proof -
  have dl: "dl_udid dl = ud_udid dev" using supervise_usb_ports assms(9) by (metis option.inject)
  have dl1: "dl_udid dl1 = ud_udid dev"
    "cst_wire (dl_control dl1) = fresh_wire\<lparr>rx := tx (cst_wire (mk_control phone))\<rparr>"
    "ms_wire (dl_media dl1) = fresh_wire\<lparr>rx := tx (ms_wire (mk_media phone))\<rparr>"
    using supervise_usb_ports assms(10) by (metis option.inject)+
  have key: "store_get C (dl_udid dl1) st1 = Inr (Some key)"
    unfolding dl1(1) by (rule trusted_key_found [OF assms(6,7)])
  obtain se where se: "ap_sessions app1 = ap_sessions app @ [se]" "se_id se = sid" "se_flow se = Continue"
    "cp_transport (se_cp se) = TagUsb" "se_media se \<noteq> None"
    "cst_wire (cp_control (se_cp se)) = fresh_wire\<lparr>rx := wire_bytes J device_env @ wire_bytes J cameras_env,
        tx := wire_bytes J ack_env @ wire_bytes J (auth_ok_envelope 2 sid)\<rparr>"
    using usb_dialed_ok [OF assms(1-4) key assms(8) dl1(2,3) assms(13)] by blast
  have n: "n < length (ap_sessions app1)" "se = ap_sessions app1 ! n" using se(1) assms(11) by simp_all
  have c: "carried J device_env" "carried J cameras_env" using assms(1) by (simp_all add: connection_carried_def)
  note app2 = desktop_listens_ok [OF c n se(3,6) assms(14)]
  have "length (ap_sessions app1) = Suc n" using se(1) assms(11) by simp
  moreover have "stored_key st (dl_udid dl) = None" using assms(5) dl by simp
  ultimately show ?thesis
    using app2 se(2,4,5) n(2) untrusted_is_asked assms(12) dl by metis
qed

text \<open>A phone that was given the key of one byte.\<close>

definition usb_phone_args :: mock_args where
  "usb_phone_args = phone_args\<lparr>ma_transport := UsbListener, ma_token := as_b64 demo_codec [65]\<rparr>"

definition demo_device :: usb_device where
  "demo_device = \<lparr> ud_id = 7, ud_udid = ''U1'', ud_connection = ConnUsb, ud_product_id = None \<rparr>"

definition usb_phone_wire :: "control_envelope list" where
  "usb_phone_wire = [hello_env, auth_env usb_phone_args, device_env, cameras_env, ack_env,
     auth_ok_envelope 2 ''sess-u1'', media_hello_envelope (binding_of usb_phone_args ''sess-u1'')]"

lemma usb_phone_wire_ok: "list_all env_ok usb_phone_wire"
  using phone_wire_ok
  by (simp add: usb_phone_wire_def phone_wire_def env_ok_def auth_env_def mock_auth_def usb_phone_args_def
      phone_args_def media_hello_envelope_def)

theorem trusted_phone_connects_witness:
  "\<exists>J phone dl1 st1 r d1 app2.
     trust_usb_device demo_codec ''t0'' [65] ''U1'' (empty_store demo_path) \<lparr> dk_files = Map.empty, dk_fail = None \<rparr> = (r, st1, d1) \<and>
     phone = connect_phone J usb_phone_args (wire_bytes J ack_env) (wire_bytes J (auth_ok_envelope 2 ''sess-u1'')) \<and>
     supervise demo_codec (usb_ports phone) st1 (Connected demo_device) = Some dl1 \<and>
     app2 = desktop_listens J 0 0 (app_usb_dialed demo_codec J ''u1'' 0 st1 dl1 demo_start) \<and>
     sn_state (ap_snapshot app2) = StReady (Some TagUsb)"
proof -
  let ?J = "table_text (map enc_envelope usb_phone_wire)"
  let ?phone = "connect_phone ?J usb_phone_args (wire_bytes ?J ack_env) (wire_bytes ?J (auth_ok_envelope 2 ''sess-u1''))"
  have "carried ?J e" if "e \<in> set usb_phone_wire" for e
    using that usb_phone_wire_ok by (intro carried_table) (auto simp: list_all_iff, simp add: usb_phone_wire_def)
  then have "list_all (carried ?J) usb_phone_wire" by (simp add: list_all_iff)
  then have c: "connection_carried ?J usb_phone_args ''sess-u1''"
    by (simp add: connection_carried_def usb_phone_wire_def)
  obtain r st1 d1 where trust: "trust_usb_device demo_codec ''t0'' [65] (ud_udid demo_device) (empty_store demo_path)
      \<lparr> dk_files = Map.empty, dk_fail = None \<rparr> = (r, st1, d1)" by (metis prod_cases3)
  obtain dl dl1 where dl: "supervise demo_codec (usb_ports ?phone) (empty_store demo_path) (Connected demo_device) = Some dl"
      "supervise demo_codec (usb_ports ?phone) st1 (Connected demo_device) = Some dl1"
    using supervise_usb_ports by metis
  have h: "''sess-u1'' = ''sess-'' @ ''u1''" "ma_transport usb_phone_args = UsbListener"
    "stored_key (empty_store demo_path) (ud_udid demo_device) = None"
    "pc_b64_decode demo_codec (pc_b64_encode demo_codec [65]) = Some [65]" "ma_token usb_phone_args = as_b64 demo_codec [65]"
    "0 = length (ap_sessions demo_start)"
    by (simp_all add: usb_phone_args_def stored_key_def empty_store_def demo_codec_def)
  from trusted_phone_connects [OF c h(1,2) refl h(3) trust h(4,5) dl h(6) refl refl refl, of 0]
  show ?thesis using trust dl(2) by (auto simp: demo_device_def)
qed

end
