(* ===== verification/Adaptation_Loop.thy ===== *)
theory Adaptation_Loop
  imports End_To_End
begin

text \<open>
  The closed control loop of adaptation, across both programs: the phone reports a queue in its
  telemetry, the desktop's control plane passes the sample to the driver, the driver decides on
  a lower mode, the control plane sends SET_MODE, the phone confirms with MODE_APPLIED, and the
  confirmation reaches the events of the user interface. A round is one pass around the loop.
\<close>

section \<open>One round\<close>

text \<open>The bytes written between two states of a connection.\<close>

definition new_bytes :: "wire \<Rightarrow> wire \<Rightarrow> bytes" where
  "new_bytes w w' = drop (length (tx w)) (tx w')"

abbreviation phone_wire_of :: "mock_phone \<Rightarrow> wire" where
  "phone_wire_of m \<equiv> cst_wire (mk_control m)"

abbreviation session_wire :: "nat \<Rightarrow> 'k app_handle \<Rightarrow> wire" where
  "session_wire n app \<equiv> cst_wire (cp_control (se_cp (ap_sessions app ! n)))"

text \<open>The desktop's session is handed what the phone wrote, and receives one message.\<close>

definition desktop_hears :: "json_text \<Rightarrow> nat \<Rightarrow> instant \<Rightarrow> u64 \<Rightarrow> bytes \<Rightarrow> 'k app_handle \<Rightarrow> 'k app_handle" where
  "desktop_hears J n now usec bs app =
     app_session_step J n False (BrRecv now usec) (app_deliver n bs False app)"

definition loop_round ::
    "json_text \<Rightarrow> nat \<Rightarrow> instant \<Rightarrow> u64 \<Rightarrow> mock_phone \<times> 'k app_handle \<Rightarrow> mock_phone \<times> 'k app_handle" where
  "loop_round J n now usec = (\<lambda>(phone, app).
     let phone1 = mock_step J (MockRun usec) phone;
         app1 = desktop_hears J n now usec (new_bytes (phone_wire_of phone) (phone_wire_of phone1)) app;
         app2 = app_driver_step n now app1;
         app3 = app_session_step J n False BrOutbound app2;
         phone2 = mock_step J (MockRun usec)
                    (mock_step J (MockBytes (new_bytes (session_wire n app2) (session_wire n app3)) False) phone1);
         app4 = desktop_hears J n now usec (new_bytes (phone_wire_of phone1) (phone_wire_of phone2)) app3
     in (phone2, app4))"

text \<open>The three messages of a round that steps down to \<open>nxt\<close>.\<close>

definition report_env :: "u64 \<Rightarrow> mock_phone \<Rightarrow> control_envelope" where
  "report_env usec m = \<lparr> ev_seq = mk_seq m + 1, ev_ack = None,
     ev_body = Telemetry (mock_telemetry usec (m\<lparr>mk_tick := mk_tick m + 1\<rparr>)) \<rparr>"

definition set_mode_env :: "nat \<Rightarrow> 'k app_handle \<Rightarrow> mode \<Rightarrow> control_envelope" where
  "set_mode_env n app nxt = \<lparr> ev_seq = cp_seq (se_cp (ap_sessions app ! n)) + 1, ev_ack = None,
     ev_body = SetMode \<lparr> sm_mode = nxt \<rparr> \<rparr>"

definition applied_env :: "nat \<Rightarrow> mock_phone \<Rightarrow> 'k app_handle \<Rightarrow> mode \<Rightarrow> control_envelope" where
  "applied_env n m app nxt = \<lparr> ev_seq = mk_seq m + 1 + 1, ev_ack = Some (ev_seq (set_mode_env n app nxt)),
     ev_body = ModeApplied \<lparr> ma_mode = nxt, ma_at_seq = 0 \<rparr> \<rparr>"

definition round_carried :: "json_text \<Rightarrow> nat \<Rightarrow> u64 \<Rightarrow> mock_phone \<times> 'k app_handle \<Rightarrow> mode \<Rightarrow> bool" where
  "round_carried J n usec = (\<lambda>(phone, app) nxt.
     carried J (report_env usec phone) \<and> carried J (set_mode_env n app nxt) \<and> carried J (applied_env n phone app nxt))"

section \<open>Quiet states\<close>

definition quiet_wire :: "wire \<Rightarrow> bool" where
  "quiet_wire w \<longleftrightarrow> rx w = [] \<and> tx_room w = None"

text \<open>Nothing is on its way, and the driver is in mode \<open>md\<close> since its last action at \<open>t\<close>.\<close>

definition phone_quiet :: "mock_phone \<Rightarrow> bool" where
  "phone_quiet m \<longleftrightarrow> mk_phase m = LoopTop \<and> ma_congested (mk_args m) \<and> quiet_wire (phone_wire_of m)"

definition session_quiet :: "'k app_session \<Rightarrow> mode \<Rightarrow> instant \<Rightarrow> bool" where
  "session_quiet se md t \<longleftrightarrow> se_flow se = Continue \<and> se_out se = [] \<and> quiet_wire (cst_wire (cp_control (se_cp se))) \<and>
     (\<exists>c. cp_telemetry_tx (se_cp se) = Some c \<and> tc_queue c = [] \<and> 0 < tc_capacity c \<and> \<not> tc_closed c) \<and>
     as_current (dr_state (se_driver se)) = md \<and> reference_at (dr_state (se_driver se)) = t"

definition loop_quiet :: "nat \<Rightarrow> mock_phone \<times> 'k app_handle \<Rightarrow> mode \<Rightarrow> instant \<Rightarrow> bool" where
  "loop_quiet n = (\<lambda>(phone, app) md t.
     phone_quiet phone \<and> n < length (ap_sessions app) \<and> session_quiet (ap_sessions app ! n) md t)"

section \<open>The steps of a round\<close>

text \<open>A congested phone reports a queue as long as its counter has not wrapped.\<close>

lemma congested_queue:
  assumes "unat tick < 2 ^ 31"
  shows "0 < 3 + (tick :: u32)"
proof -
  have "unat (3 + tick) = unat tick + 3"
    using assms by (simp add: unat_word_ariths)
  then show ?thesis by (simp add: word_less_nat_alt)
qed

lemma phone_reports:
  assumes "phone_quiet m" and "carried J (report_env usec m)"
  obtains m1 where "mock_step J (MockRun usec) m = m1" "mk_phase m1 = InSelect" "mk_args m1 = mk_args m"
    "mk_seq m1 = mk_seq m + 1" "mk_tick m1 = mk_tick m + 1"
    "phone_wire_of m1 = (phone_wire_of m)\<lparr>tx := tx (phone_wire_of m) @ wire_bytes J (report_env usec m)\<rparr>"
  using that assms
  by (simp add: phone_quiet_def quiet_wire_def mock_step_def mock_loop_top_def Let_def report_env_def mock_send_carried)

lemma phone_confirms:
  assumes "mk_phase m = InSelect" and "quiet_wire (phone_wire_of m)"
    and "carried J env" and "ev_body env = SetMode \<lparr> sm_mode = nxt \<rparr>"
    and "ap = \<lparr> ev_seq = mk_seq m + 1, ev_ack = Some (ev_seq env), ev_body = ModeApplied \<lparr> ma_mode = nxt, ma_at_seq = 0 \<rparr> \<rparr>"
    and "carried J ap"
  obtains m2 where "mock_step J (MockRun usec) (mock_step J (MockBytes (wire_bytes J env) False) m) = m2"
    "mk_phase m2 = LoopTop" "mk_args m2 = mk_args m" "mk_seq m2 = mk_seq m + 1" "mk_tick m2 = mk_tick m"
    "phone_wire_of m2 = (phone_wire_of m)\<lparr>tx := tx (phone_wire_of m) @ wire_bytes J ap\<rparr>"
proof -
  let ?c = "(mk_control m)\<lparr>cst_wire := (phone_wire_of m)\<lparr>rx := wire_bytes J env\<rparr>\<rparr>"
  have "cs_recv J ?c = (Ready (Inr env), mk_control m)"
    using recv_carried [OF assms(3), of ?c "[]"] assms(2) by (simp add: quiet_wire_def)
  moreover have "mock_step J (MockBytes (wire_bytes J env) False) m = m\<lparr>mk_control := ?c\<rparr>"
    using assms(2) by (simp add: mock_step_def quiet_wire_def)
  ultimately show thesis
    using that assms
    by (simp add: mock_step_def mock_recv_def mock_handle_def quiet_wire_def mock_send_carried)
qed

text \<open>One message of the phone, handed over whole.\<close>

lemma desktop_hears_ok:
  assumes "n < length (ap_sessions app)" and "se = ap_sessions app ! n" and "se_flow se = Continue"
    and "rx (cst_wire (cp_control (se_cp se))) = []" and "carried J env"
    and "cp_handle J usec env ((load_shared app (se_cp se))\<lparr>cp_last_rx := now,
           cp_received := cp_received (se_cp se) @ [ev_body env]\<rparr>) = (Continue, cp')"
  shows "desktop_hears J n now usec (wire_bytes J env) app =
    app\<lparr>ap_snapshot := cp_snapshot cp', ap_events := cp_events cp',
        ap_sessions := (ap_sessions app)[n := se\<lparr>se_cp := cp', se_flow := Continue\<rparr>]\<rparr>"
proof -
  let ?c = "(cp_control (se_cp se))\<lparr>cst_wire := (cst_wire (cp_control (se_cp se)))\<lparr>rx := wire_bytes J env\<rparr>\<rparr>"
  let ?app = "app_deliver n (wire_bytes J env) False app"
  have app: "?app = app\<lparr>ap_sessions := (ap_sessions app)[n := se\<lparr>se_cp := (se_cp se)\<lparr>cp_control := ?c\<rparr>\<rparr>]\<rparr>"
    using assms(1,2,4) by (simp add: app_deliver_def update_session_def deliver_def Let_def)
  have r: "cs_recv J ?c = (Ready (Inr env), cp_control (se_cp se))"
    using recv_carried [OF assms(5), of ?c "[]"] assms(4) by simp
  have "(load_shared ?app (se_cp (ap_sessions ?app ! n)))\<lparr>cp_control := cp_control (se_cp se), cp_last_rx := now,
      cp_received := cp_received (se_cp (ap_sessions ?app ! n)) @ [ev_body env]\<rparr>
    = (load_shared app (se_cp se))\<lparr>cp_last_rx := now, cp_received := cp_received (se_cp se) @ [ev_body env]\<rparr>"
    using assms(1) app by (simp add: load_shared_def)
  then show ?thesis
    using session_recv [of n ?app J env "cp_control (se_cp se)" usec now Continue cp' False] r app assms(1,2,3,6)
    by (simp add: desktop_hears_def)
qed

text \<open>A telemetry sample enters the driver's queue and the events.\<close>

lemma desktop_hears_telemetry:
  assumes "n < length (ap_sessions app)" and "session_quiet (ap_sessions app ! n) md t"
    and "carried J env" and "ev_body env = Telemetry tm"
  obtains app' se' c where "desktop_hears J n now usec (wire_bytes J env) app = app'"
    "ap_events app' = ap_events app @ [EvTelemetry tm]" "length (ap_sessions app') = length (ap_sessions app)"
    "se' = ap_sessions app' ! n" "se_flow se' = Continue" "se_out se' = []"
    "cp_control (se_cp se') = cp_control (se_cp (ap_sessions app ! n))"
    "cp_seq (se_cp se') = cp_seq (se_cp (ap_sessions app ! n))"
    "cp_telemetry_tx (se_cp se') = Some c" "tc_queue c = [tm]" "0 < tc_capacity c" "\<not> tc_closed c"
    "se_driver se' = se_driver (ap_sessions app ! n)"
proof -
  let ?se = "ap_sessions app ! n"
  obtain c where c: "cp_telemetry_tx (se_cp ?se) = Some c" "tc_queue c = []" "0 < tc_capacity c" "\<not> tc_closed c"
    and q: "se_flow ?se = Continue" "se_out ?se = []" "rx (cst_wire (cp_control (se_cp ?se))) = []"
    using assms(2) by (auto simp: session_quiet_def quiet_wire_def)
  define cp' where "cp' = snd (cp_handle J usec env ((load_shared app (se_cp ?se))\<lparr>cp_last_rx := now,
           cp_received := cp_received (se_cp ?se) @ [ev_body env]\<rparr>))"
  have cp': "cp_handle J usec env ((load_shared app (se_cp ?se))\<lparr>cp_last_rx := now,
           cp_received := cp_received (se_cp ?se) @ [ev_body env]\<rparr>) = (Continue, cp')"
    "cp_events cp' = ap_events app @ [EvTelemetry tm]" "cp_control cp' = cp_control (se_cp ?se)"
    "cp_seq cp' = cp_seq (se_cp ?se)" "cp_telemetry_tx cp' = Some (c\<lparr>tc_queue := [tm]\<rparr>)"
    using c assms(4) by (simp_all add: cp'_def cp_handle_def Let_def emit_def load_shared_def try_send_def)
  from desktop_hears_ok [OF assms(1) refl q(1,3) assms(3) cp'(1)] show thesis
    using that [OF refl, of _ "c\<lparr>tc_queue := [tm]\<rparr>"] assms(1) cp' q(2) c by simp
qed

text \<open>The driver takes the sample and queues the lower mode.\<close>

lemma driver_steps_down:
  assumes "n < length (ap_sessions app)" and "se = ap_sessions app ! n" and "cp_telemetry_tx (se_cp se) = Some c"
    and "tc_queue c = [tm]" and "se_out se = []" and "0 < tm_queue_depth tm"
    and "reference_at (dr_state (se_driver se)) + STEPDOWN_COOLDOWN \<le> now"
    and "next_lower (as_current (dr_state (se_driver se))) = Some nxt"
  obtains d where "app_driver_step n now app =
      app\<lparr>ap_sessions := (ap_sessions app)[n := se\<lparr>se_cp := (se_cp se)\<lparr>cp_telemetry_tx := Some (c\<lparr>tc_queue := []\<rparr>)\<rparr>,
         se_driver := d, se_out := [SetMode \<lparr> sm_mode = nxt \<rparr>]\<rparr>]\<rparr>"
    "as_current (dr_state d) = nxt" "reference_at (dr_state d) = now"
proof -
  obtain st' where o: "observe (dr_state (se_driver se)) tm (Fin 0) now = (StepDown nxt, st')"
    "as_current st' = nxt" "reference_at st' = now"
    using observe_queue [OF assms(6,7), of "Fin 0"] assms(8) by auto
  then show thesis
    using that [of "(se_driver se)\<lparr>dr_state := st', dr_outbound := [SetMode \<lparr> sm_mode = nxt \<rparr>]\<rparr>"] assms(1-5)
    by (simp add: app_driver_step_def update_session_def session_driver_step_def driver_observe_def Let_def)
qed

text \<open>The outbound branch writes the queued message.\<close>

lemma outbound_written:
  assumes "n < length (ap_sessions app)" and "se = ap_sessions app ! n" and "se_flow se = Continue"
    and "se_out se = [msg]" and "tx_room (cst_wire (cp_control (se_cp se))) = None"
    and "env = \<lparr> ev_seq = cp_seq (se_cp se) + 1, ev_ack = None, ev_body = msg \<rparr>" and "carried J env"
  obtains app' cp' where "app_session_step J n False BrOutbound app = app'"
    "ap_events app' = ap_events app" "ap_sessions app' = (ap_sessions app)[n := se\<lparr>se_cp := cp', se_flow := Continue, se_out := []\<rparr>]"
    "cst_wire (cp_control cp') = (cst_wire (cp_control (se_cp se)))\<lparr>tx := tx (cst_wire (cp_control (se_cp se))) @ wire_bytes J env\<rparr>"
    "cp_telemetry_tx cp' = cp_telemetry_tx (se_cp se)" "cp_seq cp' = cp_seq (se_cp se) + 1"
proof -
  let ?c = "(cp_control (se_cp se))\<lparr>cst_wire := (cst_wire (cp_control (se_cp se)))
      \<lparr>tx := tx (cst_wire (cp_control (se_cp se))) @ wire_bytes J env\<rparr>\<rparr>"
  have "cs_send J env (cp_control (se_cp se)) = (Inr (), ?c)"
    using send_carried [OF assms(7,5)] by simp
  define cp' where "cp' = (load_shared app (se_cp se))
      \<lparr>cp_seq := cp_seq (se_cp se) + 1, cp_control := ?c, cp_sent := cp_sent (se_cp se) @ [env]\<rparr>"
  have "cp_outbound J (Some msg) (load_shared app (se_cp se)) = (Continue, cp')"
    using \<open>cs_send J env (cp_control (se_cp se)) = (Inr (), ?c)\<close>
    by (simp add: cp_outbound_def bump_seq_def cp_send_def Let_def load_shared_def assms(6) cp'_def)
  then have "app_session_step J n False BrOutbound app =
      app\<lparr>ap_snapshot := cp_snapshot cp', ap_events := cp_events cp',
         ap_sessions := (ap_sessions app)[n := se\<lparr>se_cp := cp', se_flow := Continue, se_out := []\<rparr>]\<rparr>"
    using assms(1-4) by (simp add: app_session_step_def run_branch_def drop_recv_def update_session_def Let_def)
  then show thesis using that [OF refl, of cp'] by (simp add: cp'_def load_shared_def)
qed

text \<open>The confirmation reaches the events and leaves the session quiet.\<close>

lemma desktop_hears_applied:
  assumes "n < length (ap_sessions app)" and "session_quiet (ap_sessions app ! n) md t"
    and "carried J env" and "ev_body env = ModeApplied ma"
  obtains app' where "desktop_hears J n now usec (wire_bytes J env) app = app'"
    "ap_events app' = ap_events app @ [EvModeApplied (ma_mode ma)]" "length (ap_sessions app') = length (ap_sessions app)"
    "session_quiet (ap_sessions app' ! n) md t"
proof -
  let ?se = "ap_sessions app ! n"
  have q: "se_flow ?se = Continue" "rx (cst_wire (cp_control (se_cp ?se))) = []"
    using assms(2) by (auto simp: session_quiet_def quiet_wire_def)
  define cp' where "cp' = snd (cp_handle J usec env ((load_shared app (se_cp ?se))\<lparr>cp_last_rx := now,
           cp_received := cp_received (se_cp ?se) @ [ev_body env]\<rparr>))"
  have cp': "cp_handle J usec env ((load_shared app (se_cp ?se))\<lparr>cp_last_rx := now,
           cp_received := cp_received (se_cp ?se) @ [ev_body env]\<rparr>) = (Continue, cp')"
    "cp_events cp' = ap_events app @ [EvModeApplied (ma_mode ma)]" "cp_control cp' = cp_control (se_cp ?se)"
    "cp_telemetry_tx cp' = cp_telemetry_tx (se_cp ?se)"
    using assms(4) by (simp_all add: cp'_def cp_handle_def emit_def load_shared_def)
  from desktop_hears_ok [OF assms(1) refl q assms(3) cp'(1)] show thesis
    using that [OF refl] assms(1,2) cp' by (simp add: session_quiet_def)
qed

section \<open>Rounds\<close>

text \<open>The desktop's half: from the report to SET_MODE on the wire.\<close>

lemma desktop_requests:
  assumes "n < length (ap_sessions app)" and "session_quiet (ap_sessions app ! n) md t"
    and "next_lower md = Some nxt" and "t + STEPDOWN_COOLDOWN \<le> now"
    and "carried J env" and "ev_body env = Telemetry tm" and "0 < tm_queue_depth tm"
    and "carried J (set_mode_env n app nxt)"
    and "app2 = app_driver_step n now (desktop_hears J n now usec (wire_bytes J env) app)"
    and "app3 = app_session_step J n False BrOutbound app2"
  shows "ap_events app3 = ap_events app @ [EvTelemetry tm] \<and> length (ap_sessions app3) = length (ap_sessions app) \<and>
    session_quiet (ap_sessions app3 ! n) nxt now \<and>
    new_bytes (session_wire n app2) (session_wire n app3) = wire_bytes J (set_mode_env n app nxt)"
proof -
  let ?set = "set_mode_env n app nxt"
  obtain app1 se1 c1 where a1: "desktop_hears J n now usec (wire_bytes J env) app = app1"
    "ap_events app1 = ap_events app @ [EvTelemetry tm]" "length (ap_sessions app1) = length (ap_sessions app)"
    "se1 = ap_sessions app1 ! n" "se_flow se1 = Continue" "se_out se1 = []"
    "cp_control (se_cp se1) = cp_control (se_cp (ap_sessions app ! n))"
    "cp_seq (se_cp se1) = cp_seq (se_cp (ap_sessions app ! n))"
    "cp_telemetry_tx (se_cp se1) = Some c1" "tc_queue c1 = [tm]" "0 < tc_capacity c1" "\<not> tc_closed c1"
    "se_driver se1 = se_driver (ap_sessions app ! n)"
    using desktop_hears_telemetry [OF assms(1,2,5,6), of now usec] by metis
  have d1: "reference_at (dr_state (se_driver se1)) + STEPDOWN_COOLDOWN \<le> now"
    "next_lower (as_current (dr_state (se_driver se1))) = Some nxt" and n1: "n < length (ap_sessions app1)"
    and w: "quiet_wire (session_wire n app)"
    using assms(1-4) a1(3,13) by (simp_all add: session_quiet_def)
  obtain d where d: "app_driver_step n now app1 = app1\<lparr>ap_sessions := (ap_sessions app1)[n :=
      se1\<lparr>se_cp := (se_cp se1)\<lparr>cp_telemetry_tx := Some (c1\<lparr>tc_queue := []\<rparr>)\<rparr>, se_driver := d,
          se_out := [SetMode \<lparr> sm_mode = nxt \<rparr>]\<rparr>]\<rparr>"
    "as_current (dr_state d) = nxt" "reference_at (dr_state d) = now"
    using driver_steps_down [OF n1 a1(4,9,10,6) assms(7) d1] by metis
  let ?s2 = "se1\<lparr>se_cp := (se_cp se1)\<lparr>cp_telemetry_tx := Some (c1\<lparr>tc_queue := []\<rparr>)\<rparr>, se_driver := d,
      se_out := [SetMode \<lparr> sm_mode = nxt \<rparr>]\<rparr>"
  have s2: "ap_sessions app2 ! n = ?s2" "n < length (ap_sessions app2)" "ap_events app2 = ap_events app1"
    "length (ap_sessions app2) = length (ap_sessions app)"
    using d(1) n1 a1(1,3) by (simp_all add: assms(9))
  have o: "se_flow ?s2 = Continue" "se_out ?s2 = [SetMode \<lparr> sm_mode = nxt \<rparr>]"
    "tx_room (cst_wire (cp_control (se_cp ?s2))) = None"
    "?set = \<lparr> ev_seq = cp_seq (se_cp ?s2) + 1, ev_ack = None, ev_body = SetMode \<lparr> sm_mode = nxt \<rparr> \<rparr>"
    using a1(5,7,8) w by (simp_all add: set_mode_env_def quiet_wire_def)
  obtain cp3 where a3: "ap_events app3 = ap_events app2"
    "ap_sessions app3 = (ap_sessions app2)[n := ?s2\<lparr>se_cp := cp3, se_flow := Continue, se_out := []\<rparr>]"
    and cp3: "cst_wire (cp_control cp3) = (cst_wire (cp_control (se_cp ?s2)))
        \<lparr>tx := tx (cst_wire (cp_control (se_cp ?s2))) @ wire_bytes J ?set\<rparr>"
      "cp_telemetry_tx cp3 = cp_telemetry_tx (se_cp ?s2)"
    unfolding assms(10) by (rule outbound_written [OF s2(2) s2(1) [symmetric] o assms(8)]) blast
  show ?thesis
    using a3 cp3 s2 d(2,3) w a1(2,3,7,11,12) by (simp add: session_quiet_def quiet_wire_def new_bytes_def)
qed

lemma round_steps_down:
  assumes "loop_quiet n (phone, app) md t" and "next_lower md = Some nxt" and "t + STEPDOWN_COOLDOWN \<le> now"
    and "round_carried J n usec (phone, app) nxt" and "unat (mk_tick phone) < 2 ^ 31"
  obtains phone' app' tm where "loop_round J n now usec (phone, app) = (phone', app')"
    "loop_quiet n (phone', app') nxt now" "mk_tick phone' = mk_tick phone + 1"
    "ap_events app' = ap_events app @ [EvTelemetry tm, EvModeApplied nxt]"
proof -
  let ?rep = "report_env usec phone" and ?set = "set_mode_env n app nxt" and ?ap = "applied_env n phone app nxt"
  let ?tm = "mock_telemetry usec (phone\<lparr>mk_tick := mk_tick phone + 1\<rparr>)"
  have q: "phone_quiet phone" "n < length (ap_sessions app)" "session_quiet (ap_sessions app ! n) md t"
    using assms(1) by (simp_all add: loop_quiet_def)
  have c: "carried J ?rep" "carried J ?set" "carried J ?ap" using assms(4) by (simp_all add: round_carried_def)
  obtain phone1 where p1: "mock_step J (MockRun usec) phone = phone1" "mk_phase phone1 = InSelect" "mk_args phone1 = mk_args phone"
    "mk_seq phone1 = mk_seq phone + 1" "mk_tick phone1 = mk_tick phone + 1"
    "phone_wire_of phone1 = (phone_wire_of phone)\<lparr>tx := tx (phone_wire_of phone) @ wire_bytes J ?rep\<rparr>"
    using phone_reports [OF q(1) c(1)] by metis
  have tm: "ev_body ?rep = Telemetry ?tm" "0 < tm_queue_depth ?tm"
    using q(1) assms(5) by (simp_all add: report_env_def mock_telemetry_def phone_quiet_def congested_queue)
  define app2 where "app2 = app_driver_step n now (desktop_hears J n now usec (wire_bytes J ?rep) app)"
  define app3 where "app3 = app_session_step J n False BrOutbound app2"
  note a3 = desktop_requests [OF q(2,3) assms(2,3) c(1) tm c(2) app2_def app3_def]
  have w1: "quiet_wire (phone_wire_of phone1)" using q(1) p1(6) by (simp add: phone_quiet_def quiet_wire_def)
  obtain phone2 where p2: "mock_step J (MockRun usec) (mock_step J (MockBytes (wire_bytes J ?set) False) phone1) = phone2"
    "mk_phase phone2 = LoopTop" "mk_args phone2 = mk_args phone1" "mk_tick phone2 = mk_tick phone1"
    "phone_wire_of phone2 = (phone_wire_of phone1)\<lparr>tx := tx (phone_wire_of phone1) @ wire_bytes J ?ap\<rparr>"
    using phone_confirms [OF p1(2) w1 c(2), of nxt ?ap usec] c(3) p1(4) by (auto simp: set_mode_env_def applied_env_def)
  have n3: "n < length (ap_sessions app3)" using a3 q(2) by simp
  obtain app4 where a4: "desktop_hears J n now usec (wire_bytes J ?ap) app3 = app4"
    "ap_events app4 = ap_events app3 @ [EvModeApplied nxt]" "length (ap_sessions app4) = length (ap_sessions app3)"
    "session_quiet (ap_sessions app4 ! n) nxt now"
    using desktop_hears_applied [OF n3 _ c(3), of nxt now "\<lparr> ma_mode = nxt, ma_at_seq = 0 \<rparr>" now usec] a3
    by (auto simp: applied_env_def)
  have "new_bytes (phone_wire_of phone) (phone_wire_of phone1) = wire_bytes J ?rep"
    "new_bytes (phone_wire_of phone1) (phone_wire_of phone2) = wire_bytes J ?ap"
    using p1(6) p2(5) by (simp_all add: new_bytes_def)
  then have "loop_round J n now usec (phone, app) = (phone2, app4)"
    using a3 by (simp add: loop_round_def Let_def p1(1) app2_def [symmetric] app3_def [symmetric] p2(1) a4(1))
  moreover have "loop_quiet n (phone2, app4) nxt now"
    using q(1) p1(3) p2(2,3,5) w1 a4(3,4) n3 by (simp add: loop_quiet_def phone_quiet_def quiet_wire_def)
  ultimately show thesis using that p1(5) p2(4) a4(2) a3 by auto
qed

text \<open>Rounds one after the other, each with its time.\<close>

fun loop_rounds ::
    "json_text \<Rightarrow> nat \<Rightarrow> (instant \<times> u64) list \<Rightarrow> mock_phone \<times> 'k app_handle \<Rightarrow> mock_phone \<times> 'k app_handle" where
  "loop_rounds J n [] s = s"
| "loop_rounds J n ((now, usec) # rs) s = loop_rounds J n rs (loop_round J n now usec s)"

text \<open>Rounds to the modes \<open>ms\<close>, at least one cooldown apart, whose messages the text codec carries.\<close>

fun rounds_ok ::
    "json_text \<Rightarrow> nat \<Rightarrow> instant \<Rightarrow> (instant \<times> u64) list \<Rightarrow> mode list \<Rightarrow> mock_phone \<times> 'k app_handle \<Rightarrow> bool" where
  "rounds_ok J n t [] ms s \<longleftrightarrow> ms = []"
| "rounds_ok J n t ((now, usec) # rs) [] s \<longleftrightarrow> False"
| "rounds_ok J n t ((now, usec) # rs) (m # ms) s \<longleftrightarrow>
     t + STEPDOWN_COOLDOWN \<le> now \<and> round_carried J n usec s m \<and> rounds_ok J n now rs ms (loop_round J n now usec s)"

fun applied_modes :: "control_plane_event list \<Rightarrow> mode list" where
  "applied_modes [] = []"
| "applied_modes (EvModeApplied m # evs) = m # applied_modes evs"
| "applied_modes (ev # evs) = applied_modes evs"

lemma applied_modes_append: "applied_modes (xs @ ys) = applied_modes xs @ applied_modes ys"
  by (induction xs rule: applied_modes.induct) simp_all

section \<open>Property\<close>


text \<open>A phone and a session in the last mode but one, and their one round.\<close>

definition slow_phone :: mock_phone where
  "slow_phone = \<lparr> mk_args = phone_args\<lparr>ma_congested := True\<rparr>, mk_phase = LoopTop, mk_control = control_over fresh_wire,
     mk_media = media_over fresh_wire, mk_seq = 4, mk_battery = f64_lit (87 / 100), mk_tick = 0, mk_video = True, mk_ramps = 0 \<rparr>"

definition low_mode :: mode where
  "low_mode = low_720p30\<lparr>md_bitrate_kbps := 1125\<rparr>"

definition slow_app :: "unit app_handle" where
  "slow_app = demo_start\<lparr>ap_sessions := [\<lparr> se_id = ''s'', se_token = ''t'',
     se_cp = cp_start TagWifi (control_over fresh_wire) snapshot_idle [] (Some \<lparr> tc_queue = [], tc_capacity = 16, tc_closed = False \<rparr>) 0,
     se_flow = Continue, se_out = [], se_driver = driver_new [] low_mode 0, se_inbox = None, se_media = None,
     se_media_done = False \<rparr>]\<rparr>"

definition slow_wire :: "control_envelope list" where
  "slow_wire = (let nxt = low_720p30\<lparr>md_bitrate_kbps := 843\<rparr> in
     [report_env 0 slow_phone, set_mode_env 0 slow_app nxt, applied_env 0 slow_phone slow_app nxt])"

lemma slow_facts:
  "loop_quiet 0 (slow_phone, slow_app) low_mode 0" "ladder low_mode = [low_720p30\<lparr>md_bitrate_kbps := 843\<rparr>]"
  "list_all env_ok slow_wire" "applied_modes (ap_events slow_app) = []"
proof -
  show "loop_quiet 0 (slow_phone, slow_app) low_mode 0"
    by (simp add: loop_quiet_def phone_quiet_def slow_phone_def slow_app_def session_quiet_def quiet_wire_def
        cp_start_def broadcast_def emit_def Let_def control_over_def fresh_wire_def driver_new_def new_at_def reference_at_def)
  have "next_lower low_720p30 = Some low_mode" by (simp add: next_lower_def low_720p30_def low_mode_def)
  from ladder_Some [OF this] show "ladder low_mode = [low_720p30\<lparr>md_bitrate_kbps := 843\<rparr>]"
    using ladder_low_720p30 by (simp add: low_mode_def)
  show "list_all env_ok slow_wire"
    using f64_round_small [of "87 / 100"]
    by (simp add: slow_wire_def Let_def env_ok_def report_env_def set_mode_env_def applied_env_def mock_telemetry_def
        slow_phone_def f64_finite_def)
qed (simp add: slow_app_def demo_start_def app_start_def)


end
