(* ===== verification/Step_System.thy ===== *)
theory Step_System
  imports Main
begin

text \<open>
  Runs of step functions. A schedule is a list of actions and a run folds a step function over
  it. The locale states once how a property of states that every permitted action keeps is
  kept by every run of permitted actions; the systems of tasks interpret it for their invariants
  and for the states they cannot leave.
\<close>

locale step_invariant =
  fixes step :: "'a \<Rightarrow> 's \<Rightarrow> 's" and permitted :: "'a \<Rightarrow> bool" and inv :: "'s \<Rightarrow> bool"
  assumes inv_step: "inv s \<Longrightarrow> permitted a \<Longrightarrow> inv (step a s)"
begin

lemma inv_run: "inv s \<Longrightarrow> list_all permitted acts \<Longrightarrow> inv (fold step acts s)"
  by (induction acts arbitrary: s) (simp_all add: inv_step)

end

text \<open>No action is excluded.\<close>

definition any_action :: "'a \<Rightarrow> bool" where
  "any_action a \<longleftrightarrow> True"

lemma list_all_any [simp]: "list_all any_action acts"
  by (simp add: any_action_def list_all_iff)

end
