(* ===== verification/Event_Channel.thy ===== *)
theory Event_Channel
  imports App_Core Step_System
begin

text \<open>
  Back-pressure of the event channel. The control plane sends its events into a bounded channel
  (\<open>mpsc::channel(64)\<close> in \<open>crates/app/src/lib.rs\<close>) and waits when it is full, in the middle of a
  branch of its loop. \<open>Session_Control\<close> runs a branch in one step and keeps the log of all events.
  Here a branch is the work up to its first event and then a list of effects in the order of the
  code; running them stops at an event that finds the channel full, and goes on when the actor
  is woken. While effects are left, no branch of the loop starts. The receiver lives throughout;
  events of other sessions on the same channel are those it holds at the start.

  Run to the end, the effects of a branch give exactly the one-step branch. Hence every run with
  the bounded channel, with its unfinished branch completed, is a run of the control plane, and
  the invariants proved there carry over. A reader that stops reading freezes the session,
  dead-peer detection included; two reads always let it go on.
\<close>

definition EVENTS_CAPACITY :: nat where
  "EVENTS_CAPACITY = 64"

section \<open>Branches as effects\<close>

text \<open>An event sent, the snapshot part of \<open>broadcast\<close>, and telemetry handed to the driver.\<close>

datatype cp_effect =
    Emit control_plane_event
  | SetState session_state_kind "device_snapshot option"
  | TrySend telemetry

fun run_effect :: "cp_effect \<Rightarrow> control_plane \<Rightarrow> control_plane" where
  "run_effect (Emit ev) cp = emit ev cp"
| "run_effect (SetState st device) cp =
     (let snap = (cp_snapshot cp)\<lparr>sn_state := st\<rparr>;
          snap = (case device of Some d \<Rightarrow> snap\<lparr>sn_device := Some d\<rparr> | None \<Rightarrow> snap)
      in cp\<lparr>cp_snapshot := snap\<rparr>)"
| "run_effect (TrySend t) cp = cp\<lparr>cp_telemetry_tx := map_option (try_send t) (cp_telemetry_tx cp)\<rparr>"

definition broadcast_effects :: "session_state_kind \<Rightarrow> device_snapshot option \<Rightarrow> cp_effect list" where
  "broadcast_effects st device = [SetState st device, Emit (EvStateChanged st)]"

text \<open>What a branch returns: the control flow after it, the actor so far, the effects to come.\<close>

type_synonym cp_branch = "cp_flow \<times> control_plane \<times> cp_effect list"

definition lost_connection :: "control_plane \<Rightarrow> cp_branch" where
  "lost_connection cp = (Returned, cp, broadcast_effects Reconnecting None)"

definition outbound_branch :: "json_text \<Rightarrow> control_message option \<Rightarrow> control_plane \<Rightarrow> cp_branch" where
  "outbound_branch J msg cp =
     (case msg of
        None \<Rightarrow> (Continue, cp, [])
      | Some body \<Rightarrow>
          let cp1 = bump_seq cp in
          (case cp_send J \<lparr> ev_seq = cp_seq cp1, ev_ack = None, ev_body = body \<rparr> cp1 of
             (Inl e, cp2) \<Rightarrow> lost_connection cp2
           | (Inr _, cp2) \<Rightarrow> (Continue, cp2, [])))"

definition tick_branch :: "json_text \<Rightarrow> instant \<Rightarrow> u64 \<Rightarrow> control_plane \<Rightarrow> cp_branch" where
  "tick_branch J now usec cp =
     (let cp1 = bump_seq cp in
      case cp_send J \<lparr> ev_seq = cp_seq cp1, ev_ack = None, ev_body = Ping \<lparr> pi_ts_usec = usec \<rparr> \<rparr> cp1 of
        (Inl e, cp2) \<Rightarrow> lost_connection cp2
      | (Inr _, cp2) \<Rightarrow>
          if DEAD_PEER_AFTER < duration_since now (cp_last_rx cp2) then lost_connection cp2
          else (Continue, cp2, []))"

definition handle_branch :: "json_text \<Rightarrow> u64 \<Rightarrow> control_envelope \<Rightarrow> control_plane \<Rightarrow> cp_branch" where
  "handle_branch J usec env cp =
     (case ev_body env of
        Ping p \<Rightarrow>
          (let cp1 = bump_seq cp;
               (r, cp2) = cp_send J \<lparr> ev_seq = cp_seq cp1, ev_ack = Some (ev_seq env),
                 ev_body = Pong \<lparr> po_ts_usec = usec, po_echo_usec = pi_ts_usec p \<rparr> \<rparr> cp1
           in (Continue, cp2, []))
      | DeviceInfo di \<Rightarrow>
          (let snap = from_device_info di in
           (Continue, cp, Emit (EvDeviceInfo snap) # broadcast_effects (StReady (Some (cp_transport cp))) (Some snap)))
      | CameraList cl \<Rightarrow>
          (let snap = cp_snapshot cp;
               snap = (case sn_device snap of
                         Some d \<Rightarrow> snap\<lparr>sn_device := Some (d\<lparr>ds_cameras := cl_cameras cl\<rparr>)\<rparr>
                       | None \<Rightarrow> snap)
           in (Continue, cp\<lparr>cp_snapshot := snap\<rparr>,
               case sn_device snap of Some d \<Rightarrow> [Emit (EvDeviceInfo d)] | None \<Rightarrow> []))
      | Telemetry t \<Rightarrow>
          (Continue, cp\<lparr>cp_snapshot := (cp_snapshot cp)\<lparr>sn_last_telemetry := Some t\<rparr>\<rparr>,
           [Emit (EvTelemetry t), TrySend t])
      | Bye b \<Rightarrow> (Returned, cp, broadcast_effects (Closed (by_reason b)) None @ [Emit (EvClosed (by_reason b))])
      | ModeApplied ma \<Rightarrow> (Continue, cp, [Emit (EvModeApplied (ma_mode ma))])
      | other \<Rightarrow> (Continue, cp, []))"

definition recv_branch :: "json_text \<Rightarrow> instant \<Rightarrow> u64 \<Rightarrow> control_plane \<Rightarrow> cp_branch option" where
  "recv_branch J now usec cp =
     (case cs_recv J (cp_control cp) of
        (Pending, c) \<Rightarrow> None
      | (Ready (Inl e), c) \<Rightarrow> Some (lost_connection (cp\<lparr>cp_control := c\<rparr>))
      | (Ready (Inr env), c) \<Rightarrow>
          Some (handle_branch J usec env
            (cp\<lparr>cp_control := c, cp_last_rx := now, cp_received := cp_received cp @ [ev_body env]\<rparr>)))"

section \<open>The actor behind the channel\<close>

text \<open>The actor, what is left of its branch, the events in the channel and those taken from it.\<close>

record bounded_plane =
  bp_flow :: cp_flow
  bp_cp :: control_plane
  bp_todo :: "cp_effect list"
  bp_queue :: "control_plane_event list"
  bp_taken :: "control_plane_event list"

text \<open>The effects run until an event finds no room.\<close>

fun advance :: "cp_effect list \<Rightarrow> bounded_plane \<Rightarrow> bounded_plane" where
  "advance [] s = s\<lparr>bp_todo := []\<rparr>"
| "advance (Emit ev # es) s =
     (if length (bp_queue s) < EVENTS_CAPACITY
      then advance es (s\<lparr>bp_cp := emit ev (bp_cp s), bp_queue := bp_queue s @ [ev]\<rparr>)
      else s\<lparr>bp_todo := Emit ev # es\<rparr>)"
| "advance (e # es) s = advance es (s\<lparr>bp_cp := run_effect e (bp_cp s)\<rparr>)"

text \<open>The branches of the loop and what goes on beside it: bytes arrive, the reader takes an event,
  the actor is woken.\<close>

datatype bounded_action =
    BaBytes bytes bool
  | BaTake
  | BaWake
  | BaOutbound bool "control_message option"
  | BaTick bool instant u64
  | BaRecv instant u64

definition in_loop :: "bounded_plane \<Rightarrow> bool" where
  "in_loop s \<longleftrightarrow> bp_todo s = [] \<and> bp_flow s = Continue"

definition start_branch :: "bounded_plane \<Rightarrow> cp_branch option \<Rightarrow> bounded_plane" where
  "start_branch s r =
     (if in_loop s
      then case r of None \<Rightarrow> s | Some (f, cp, es) \<Rightarrow> advance es (s\<lparr>bp_flow := f, bp_cp := cp\<rparr>)
      else s)"

fun bounded_step :: "json_text \<Rightarrow> bounded_action \<Rightarrow> bounded_plane \<Rightarrow> bounded_plane" where
  "bounded_step J (BaBytes bs eof) s =
     (if bp_flow s = Returned then s else s\<lparr>bp_cp := deliver bs eof (bp_cp s)\<rparr>)"
| "bounded_step J BaTake s =
     (case bp_queue s of [] \<Rightarrow> s | ev # q \<Rightarrow> s\<lparr>bp_queue := q, bp_taken := bp_taken s @ [ev]\<rparr>)"
| "bounded_step J BaWake s = advance (bp_todo s) s"
| "bounded_step J (BaOutbound polled msg) s = start_branch s (Some (outbound_branch J msg (drop_recv J polled (bp_cp s))))"
| "bounded_step J (BaTick polled now usec) s = start_branch s (Some (tick_branch J now usec (drop_recv J polled (bp_cp s))))"
| "bounded_step J (BaRecv now usec) s = start_branch s (recv_branch J now usec (bp_cp s))"

definition bounded_run :: "json_text \<Rightarrow> bounded_action list \<Rightarrow> bounded_plane \<Rightarrow> bounded_plane" where
  "bounded_run J acts s = fold (bounded_step J) acts s"

text \<open>The actor when it enters its loop, with the events then in the channel.\<close>

definition bounded_start :: "control_plane \<Rightarrow> bounded_plane" where
  "bounded_start cp = \<lparr> bp_flow = Continue, bp_cp = cp, bp_todo = [], bp_queue = cp_events cp, bp_taken = [] \<rparr>"

section \<open>Effects against branches\<close>

definition finish_branch :: "cp_branch \<Rightarrow> cp_flow \<times> control_plane" where
  "finish_branch b = (case b of (f, cp, es) \<Rightarrow> (f, fold run_effect es cp))"

lemma run_broadcast_effects: "fold run_effect (broadcast_effects st d) cp = broadcast st d None cp"
  by (simp add: broadcast_effects_def broadcast_def Let_def)

lemma finish_lost_connection: "finish_branch (lost_connection cp) = disconnect cp"
  by (simp add: finish_branch_def lost_connection_def disconnect_def run_broadcast_effects)

lemma finish_outbound: "finish_branch (outbound_branch J msg cp) = cp_outbound J msg cp"
  by (simp add: outbound_branch_def cp_outbound_def Let_def finish_lost_connection finish_branch_def [of "(Continue, _, [])"]
      split: option.splits prod.splits sum.splits)

lemma finish_tick: "finish_branch (tick_branch J now usec cp) = cp_tick J now usec cp"
  by (simp add: tick_branch_def cp_tick_def Let_def finish_lost_connection finish_branch_def [of "(Continue, _, [])"]
      split: prod.splits sum.splits)

lemma finish_handle: "finish_branch (handle_branch J usec env cp) = cp_handle J usec env cp"
  by (cases "ev_body env")
    (simp_all add: handle_branch_def cp_handle_def finish_branch_def Let_def run_broadcast_effects split: prod.splits option.splits)

lemma finish_recv: "map_option finish_branch (recv_branch J now usec cp) = cp_recv J now usec cp"
  by (simp add: recv_branch_def cp_recv_def finish_lost_connection finish_handle split: prod.splits poll.splits sum.splits)

section \<open>Refinement\<close>

text \<open>The actor with its branch completed, as if there were room.\<close>

definition finished :: "bounded_plane \<Rightarrow> control_plane" where
  "finished s = fold run_effect (bp_todo s) (bp_cp s)"

lemma advance_fields [simp]:
  "bp_flow (advance es s) = bp_flow s" "bp_taken (advance es s) = bp_taken s"
  by (induction es s rule: advance.induct) simp_all

lemma finished_advance: "finished (advance es s) = fold run_effect es (bp_cp s)"
  by (induction es s rule: advance.induct) (simp_all add: finished_def)

lemma run_effect_deliver: "run_effect e (deliver bs eof cp) = deliver bs eof (run_effect e cp)"
  by (cases e; cases cp) (simp_all add: deliver_def emit_def Let_def split: option.split)

lemma run_effects_deliver: "fold run_effect es (deliver bs eof cp) = deliver bs eof (fold run_effect es cp)"
  by (induction es arbitrary: cp) (simp_all add: run_effect_deliver)

lemma start_branch_refines:
  assumes "cp_run J cp0 (bp_flow s) (finished s)"
    and "\<And>b f cp'. r = Some b \<Longrightarrow> finish_branch b = (f, cp') \<Longrightarrow> cp_run J cp0 Continue (bp_cp s) \<Longrightarrow> cp_run J cp0 f cp'"
  shows "cp_run J cp0 (bp_flow (start_branch s r)) (finished (start_branch s r))"
proof (cases "in_loop s \<and> r \<noteq> None")
  case True
  then obtain f cp es where r: "r = Some (f, cp, es)" by auto
  have "cp_run J cp0 Continue (bp_cp s)" using True assms(1) by (simp add: in_loop_def finished_def)
  then have "cp_run J cp0 f (fold run_effect es cp)" using assms(2) r by (simp add: finish_branch_def)
  then show ?thesis using True r by (simp add: start_branch_def finished_advance)
next
  case False
  then show ?thesis using assms(1) by (cases r) (auto simp: start_branch_def)
qed

lemma bounded_step_refines:
  assumes "cp_run J cp0 (bp_flow s) (finished s)"
  shows "cp_run J cp0 (bp_flow (bounded_step J a s)) (finished (bounded_step J a s))"
proof (cases a)
  case (BaBytes bs eof)
  then show ?thesis
    using assms cp_run.arrive [of J cp0 "finished s" bs eof]
    by (cases "bp_flow s") (simp_all add: finished_def run_effects_deliver)
next
  case BaTake
  then show ?thesis using assms by (simp add: finished_def split: list.split)
next
  case BaWake
  then show ?thesis using assms by (simp add: finished_advance) (simp add: finished_def)
next
  case (BaOutbound polled msg)
  then show ?thesis
    unfolding BaOutbound bounded_step.simps
    by (intro start_branch_refines assms) (metis cp_run.outbound finish_outbound option.inject)
next
  case (BaTick polled now usec)
  then show ?thesis
    unfolding BaTick bounded_step.simps
    by (intro start_branch_refines assms) (metis cp_run.tick finish_tick option.inject)
next
  case (BaRecv now usec)
  have "cp_run J cp0 f cp'"
    if "recv_branch J now usec (bp_cp s) = Some b" "finish_branch b = (f, cp')" "cp_run J cp0 Continue (bp_cp s)" for b f cp'
    using cp_run.recv [OF that(3)] finish_recv [of J now usec "bp_cp s"] that(1,2) by simp
  then show ?thesis unfolding BaRecv bounded_step.simps by (intro start_branch_refines assms)
qed

section \<open>The channel\<close>

fun is_emit :: "cp_effect \<Rightarrow> bool" where
  "is_emit (Emit ev) = True"
| "is_emit _ = False"

definition emits :: "cp_effect list \<Rightarrow> nat" where
  "emits es = length (filter is_emit es)"

lemma emits_simps [simp]:
  "emits [] = 0" "emits (e # es) = (if is_emit e then Suc (emits es) else emits es)"
  "emits (es @ es') = emits es + emits es'" "emits (broadcast_effects st d) = 1"
  by (simp_all add: emits_def broadcast_effects_def)

text \<open>What entered the channel was taken or is queued; a branch that stopped stopped at an event.\<close>

definition chan_inv :: "bounded_plane \<Rightarrow> bool" where
  "chan_inv s \<longleftrightarrow> length (bp_queue s) \<le> EVENTS_CAPACITY \<and> cp_events (bp_cp s) = bp_taken s @ bp_queue s \<and>
     emits (bp_todo s) \<le> 2 \<and> (bp_todo s = [] \<or> is_emit (hd (bp_todo s)))"

text \<open>Events move from the branch to the channel, and the branch stops only at a full channel.\<close>

lemma advance_emits: "emits (bp_todo (advance es s)) + length (bp_queue (advance es s)) = emits es + length (bp_queue s)"
  by (induction es s rule: advance.induct) simp_all

lemma advance_stops:
  "length (bp_queue s) \<le> EVENTS_CAPACITY \<Longrightarrow> length (bp_queue (advance es s)) \<le> EVENTS_CAPACITY \<and>
     (bp_todo (advance es s) = [] \<or> is_emit (hd (bp_todo (advance es s))) \<and> length (bp_queue (advance es s)) = EVENTS_CAPACITY)"
  by (induction es s rule: advance.induct) auto

lemma advance_log:
  "cp_events (bp_cp s) = bp_taken s @ bp_queue s \<Longrightarrow>
     cp_events (bp_cp (advance es s)) = bp_taken s @ bp_queue (advance es s)"
  by (induction es s rule: advance.induct) (simp_all add: Let_def)

lemma chan_inv_advance:
  assumes "length (bp_queue s) \<le> EVENTS_CAPACITY" and "cp_events (bp_cp s) = bp_taken s @ bp_queue s" and "emits es \<le> 2"
  shows "chan_inv (advance es s)"
proof -
  have "length (bp_queue s) \<le> length (bp_queue (advance es s))"
    by (induction es s rule: advance.induct) (simp_all add: Suc_leD)
  then have "emits (bp_todo (advance es s)) \<le> 2" using advance_emits [of es s] assms(3) by linarith
  then show ?thesis
    using advance_stops [OF assms(1), of es] advance_log [OF assms(2), of es] by (auto simp: chan_inv_def)
qed

lemma cp_events_send: "cp_send J env cp = (r, cp') \<Longrightarrow> cp_events cp' = cp_events cp"
  by (rule cp_send_fields)

text \<open>A branch keeps the log up to its first effect and has at most two events.\<close>

definition modest :: "control_plane \<Rightarrow> cp_branch \<Rightarrow> bool" where
  "modest cp b \<longleftrightarrow> cp_events (fst (snd b)) = cp_events cp \<and> emits (snd (snd b)) \<le> 2"

lemma modest_branches:
  "modest cp (outbound_branch J msg (drop_recv J polled cp))"
  "modest cp (tick_branch J now usec (drop_recv J polled cp))"
  by (auto simp: modest_def outbound_branch_def tick_branch_def lost_connection_def Let_def
      dest!: cp_events_send split: option.splits prod.splits sum.splits)

lemma modest_handle: "modest cp (handle_branch J usec env cp)"
  by (cases "ev_body env")
    (auto simp: modest_def handle_branch_def Let_def dest!: cp_events_send split: prod.splits option.splits)

lemma modest_recv: "recv_branch J now usec cp = Some b \<Longrightarrow> modest cp b"
  using modest_handle unfolding modest_def
  by (force simp: recv_branch_def lost_connection_def split: prod.splits poll.splits sum.splits)

lemma chan_inv_branch:
  assumes "chan_inv s" and "\<And>b. r = Some b \<Longrightarrow> modest (bp_cp s) b"
  shows "chan_inv (start_branch s r)"
proof (cases r)
  case (Some b)
  obtain f cp es where b: "b = (f, cp, es)" by (cases b)
  have "chan_inv (advance es (s\<lparr>bp_flow := f, bp_cp := cp\<rparr>))"
    using assms Some by (intro chan_inv_advance) (auto simp: chan_inv_def modest_def b)
  then show ?thesis using assms(1) by (simp add: start_branch_def Some b)
qed (use assms in \<open>simp add: start_branch_def\<close>)

lemma chan_inv_branch_Some: "chan_inv s \<Longrightarrow> modest (bp_cp s) b \<Longrightarrow> chan_inv (start_branch s (Some b))"
  by (rule chan_inv_branch) simp_all

lemma chan_inv_step: "chan_inv s \<Longrightarrow> chan_inv (bounded_step J a s)"
proof (cases a)
  case BaTake
  assume "chan_inv s"
  then show ?thesis unfolding BaTake by (auto simp: chan_inv_def split: list.split)
next
  case BaWake
  assume "chan_inv s"
  then show ?thesis unfolding BaWake bounded_step.simps by (intro chan_inv_advance) (auto simp: chan_inv_def)
next
  case (BaRecv now usec)
  assume "chan_inv s"
  then show ?thesis unfolding BaRecv bounded_step.simps by (intro chan_inv_branch modest_recv)
next
  case (BaBytes bs eof)
  assume "chan_inv s"
  then show ?thesis unfolding BaBytes by (simp add: chan_inv_def)
qed (simp_all add: chan_inv_branch_Some modest_branches)

text \<open>Both invariants, for every run.\<close>

definition bounded_inv :: "json_text \<Rightarrow> control_plane \<Rightarrow> bounded_plane \<Rightarrow> bool" where
  "bounded_inv J cp0 s \<longleftrightarrow> cp_run J cp0 (bp_flow s) (finished s) \<and> chan_inv s"

lemma bounded_inv_step: "bounded_inv J cp0 s \<Longrightarrow> bounded_inv J cp0 (bounded_step J a s)"
  by (simp add: bounded_inv_def bounded_step_refines chan_inv_step)

interpretation bounded: step_invariant "bounded_step J" any_action "bounded_inv J cp0" for J cp0
  by unfold_locales (rule bounded_inv_step)

lemma bounded_inv_run: "bounded_inv J cp0 s \<Longrightarrow> bounded_inv J cp0 (bounded_run J acts s)"
  unfolding bounded_run_def by (rule bounded.inv_run) simp_all

lemma bounded_inv_start: "length (cp_events cp) \<le> EVENTS_CAPACITY \<Longrightarrow> bounded_inv J cp (bounded_start cp)"
  by (simp add: bounded_inv_def bounded_start_def finished_def chan_inv_def cp_run.init)

section \<open>A reader that stops, and one that goes on\<close>

definition send_waits :: "bounded_plane \<Rightarrow> bool" where
  "send_waits s \<longleftrightarrow> bp_todo s \<noteq> [] \<and> is_emit (hd (bp_todo s)) \<and> EVENTS_CAPACITY \<le> length (bp_queue s)"

text \<open>What a step that is not a read leaves alone in a session that waits: all but the bytes that
  arrive.\<close>

definition frozen :: "bounded_plane \<Rightarrow> bounded_plane \<Rightarrow> bool" where
  "frozen s s' \<longleftrightarrow> bp_flow s' = bp_flow s \<and> bp_todo s' = bp_todo s \<and> bp_queue s' = bp_queue s \<and>
     cp_sent (bp_cp s') = cp_sent (bp_cp s) \<and> cp_received (bp_cp s') = cp_received (bp_cp s) \<and>
     cp_snapshot (bp_cp s') = cp_snapshot (bp_cp s)"

lemma frozen_waits: "frozen s s' \<Longrightarrow> send_waits s' = send_waits s"
  by (simp add: frozen_def send_waits_def)

lemma frozen_refl: "frozen s s"
  by (simp add: frozen_def)

lemma frozen_trans: "frozen s s' \<Longrightarrow> frozen s' s'' \<Longrightarrow> frozen s s''"
  by (simp add: frozen_def)

lemma waiting_advance: "send_waits s \<Longrightarrow> advance (bp_todo s) s = s"
  by (cases "bp_todo s"; cases "hd (bp_todo s)") (auto simp: send_waits_def)

lemma blocked_step:
  assumes "send_waits s" and "a \<noteq> BaTake"
  shows "frozen s (bounded_step J a s)"
proof -
  have "start_branch s r = s" for r using assms(1) by (simp add: start_branch_def in_loop_def send_waits_def)
  then show ?thesis using assms by (cases a) (simp_all add: waiting_advance frozen_refl, simp add: frozen_def)
qed

lemma blocked_again: "send_waits s \<and> frozen s s' \<Longrightarrow> a \<noteq> BaTake \<Longrightarrow> send_waits s \<and> frozen s (bounded_step J a s')"
  using blocked_step [of s' a J] frozen_waits [of s s'] frozen_trans by blast

interpretation blocked: step_invariant "bounded_step J" "\<lambda>a. a \<noteq> BaTake" "\<lambda>s'. send_waits s \<and> frozen s s'" for J s
  by unfold_locales (rule blocked_again)

lemma blocked_run: "send_waits s \<Longrightarrow> BaTake \<notin> set acts \<Longrightarrow> frozen s (bounded_run J acts s)"
  using blocked.inv_run [of s s acts J] by (auto simp: bounded_run_def frozen_refl list_all_iff)

text \<open>A read makes room for one event.\<close>

lemma read_and_wake:
  assumes "chan_inv s"
  shows "emits (bp_todo (bounded_run J [BaTake, BaWake] s)) \<le> emits (bp_todo s) - 1"
proof -
  let ?s = "bounded_step J BaTake s" and ?s' = "bounded_step J BaWake (bounded_step J BaTake s)"
  have ok: "chan_inv ?s" using assms by (rule chan_inv_step)
  have room: "length (bp_queue ?s) < EVENTS_CAPACITY" and todo: "bp_todo ?s = bp_todo s"
    using assms by (auto simp: chan_inv_def EVENTS_CAPACITY_def split: list.split)
  have "emits (bp_todo ?s') + length (bp_queue ?s') = emits (bp_todo s) + length (bp_queue ?s)"
    using advance_emits [of "bp_todo ?s" ?s] todo by simp
  moreover have "bp_todo ?s' = [] \<or> length (bp_queue ?s') = EVENTS_CAPACITY"
    using advance_stops [of ?s "bp_todo ?s"] room by auto
  ultimately show ?thesis using room by (auto simp: bounded_run_def)
qed

lemma no_emits_no_wait: "chan_inv s \<Longrightarrow> emits (bp_todo s) = 0 \<Longrightarrow> bp_todo s = []"
  by (cases "bp_todo s") (auto simp: chan_inv_def split: if_splits)

lemma two_reads_unblock:
  assumes "bounded_inv J cp0 s"
  shows "bp_todo (bounded_run J [BaTake, BaWake, BaTake, BaWake] s) = []"
proof -
  let ?s1 = "bounded_run J [BaTake, BaWake] s"
  let ?s2 = "bounded_run J [BaTake, BaWake] ?s1"
  have inv: "chan_inv s" "chan_inv ?s1" "chan_inv ?s2"
    using assms bounded_inv_run bounded_inv_def by blast+
  have "emits (bp_todo s) \<le> 2" using inv(1) by (simp add: chan_inv_def)
  then have "emits (bp_todo ?s2) = 0"
    using read_and_wake [OF inv(1), of J] read_and_wake [OF inv(2), of J] by linarith
  moreover have "?s2 = bounded_run J [BaTake, BaWake, BaTake, BaWake] s" by (simp add: bounded_run_def)
  ultimately show ?thesis using no_emits_no_wait [OF inv(3)] by metis
qed

section \<open>The session behind the bounded channel\<close>

definition bounded_session ::
    "json_text \<Rightarrow> transport_tag \<Rightarrow> control_stream \<Rightarrow> session_snapshot \<Rightarrow> control_plane_event list
     \<Rightarrow> telemetry_chan option \<Rightarrow> instant \<Rightarrow> bounded_action list \<Rightarrow> bounded_plane" where
  "bounded_session J t c snap evs tele now acts =
     bounded_run J acts (bounded_start (cp_start t c snap evs tele now))"

text \<open>C16. 
  A session that enters its loop with at most 64 events in the channel, under any order of its
  branches, of arriving bytes, of reads and of wake-ups: with its unfinished branch completed it
  is a run of the control plane with the unbounded log; the channel never holds more than 64
  events and what entered it was read or is queued, in order; two reads let it go on. While an
  event waits and nobody reads, nothing is sent, received or decided: no Ping goes out and a dead
  peer is not noticed, however much time passes.
\<close>

theorem bounded_events:
  assumes "length evs < EVENTS_CAPACITY"
    and s_def: "s = bounded_session J t c snap evs tele now acts"
  shows "cp_run J (cp_start t c snap evs tele now) (bp_flow s) (finished s) \<and>
    length (bp_queue s) \<le> EVENTS_CAPACITY \<and> cp_events (bp_cp s) = bp_taken s @ bp_queue s \<and>
    bp_todo (bounded_run J [BaTake, BaWake, BaTake, BaWake] s) = [] \<and>
    (send_waits s \<longrightarrow> BaTake \<notin> set later \<longrightarrow> frozen s (bounded_run J later s))"
proof -
  let ?cp = "cp_start t c snap evs tele now"
  have "length (cp_events ?cp) \<le> EVENTS_CAPACITY" using assms(1) by (simp add: cp_start_def Let_def)
  then have inv: "bounded_inv J ?cp s"
    unfolding s_def bounded_session_def by (intro bounded_inv_run bounded_inv_start)
  then have "cp_run J ?cp (bp_flow s) (finished s)" "length (bp_queue s) \<le> EVENTS_CAPACITY"
    "cp_events (bp_cp s) = bp_taken s @ bp_queue s"
    by (simp_all add: bounded_inv_def chan_inv_def)
  then show ?thesis using two_reads_unblock [OF inv] blocked_run by blast
qed

text \<open>Sixty-three unread events of an earlier session and the first one of this session. The peer is
  silent for seven seconds; the change to Reconnecting waits for room, and the session with it.\<close>

definition crowded :: bounded_plane where
  "crowded = bounded_session ping_text TagWifi (idle_stream []) snapshot_idle
     (replicate 63 (EvClosed ''bye'')) None 0 [BaTick False (from_secs 7) 7]"

lemma crowded_facts: "send_waits crowded" "length (cp_sent (bp_cp crowded)) = 1"
proof -
  let ?cp = "cp_start TagWifi (idle_stream []) snapshot_idle (replicate 63 (EvClosed ''bye'')) None 0"
  obtain r cp2 where snd: "cp_send ping_text \<lparr> ev_seq = 101, ev_ack = None, ev_body = Ping \<lparr> pi_ts_usec = 7 \<rparr> \<rparr> (bump_seq ?cp)
      = (r, cp2)" by fastforce
  have cp: "cp_seq ?cp = 100" "cp_last_rx ?cp = 0" "cp_sent ?cp = []" "length (cp_events ?cp) = 64"
    by (simp_all add: cp_start_def broadcast_def emit_def Let_def)
  have "tick_branch ping_text (from_secs 7) 7 ?cp = lost_connection cp2"
    using snd cp_send_fields(6) [OF snd] cp
    by (simp add: tick_branch_def Let_def DEAD_PEER_AFTER_def duration_since_def from_secs_def split: sum.split)
  then have eq: "crowded = (bounded_start ?cp)\<lparr>bp_flow := Returned, bp_cp := run_effect (SetState Reconnecting None) cp2,
      bp_todo := [Emit (EvStateChanged Reconnecting)]\<rparr>"
    using cp(4)
    by (simp add: crowded_def bounded_session_def bounded_run_def bounded_start_def drop_recv_def start_branch_def in_loop_def
        lost_connection_def broadcast_effects_def EVENTS_CAPACITY_def Let_def)
  show "send_waits crowded" "length (cp_sent (bp_cp crowded)) = 1"
    unfolding eq using cp(3,4) cp_send_fields(7) [OF snd]
    by (simp_all add: send_waits_def bounded_start_def EVENTS_CAPACITY_def Let_def)
qed

theorem bounded_events_witness:
  "send_waits crowded \<and>
   length (cp_sent (bp_cp (bounded_run ping_text [BaWake, BaTick False (from_secs 90) 8] crowded))) = 1 \<and>
   bp_todo (bounded_run ping_text [BaTake, BaWake, BaTake, BaWake] crowded) = []"
  using bounded_events [OF _ crowded_def, of "[BaWake, BaTick False (from_secs 90) 8]"] crowded_facts
  by (simp add: EVENTS_CAPACITY_def frozen_def)

end
