(* ===== verification/Shell_Pump.thy ===== *)
theory Shell_Pump
  imports Desktop_Shell Event_Channel "HOL-Library.Sublist"
begin

text \<open>
  The event pump of the shell across servers (\<open>src-tauri/src/events.rs\<close>). Each turn of its loop
  reads the application state, takes a reference to the event channel of the server there, and
  waits for one event of that channel. The user may stop and start servers meanwhile
  (\<open>commands.rs\<close>), and the session tasks of a stopped server go on with their clones of its
  sender. Servers are numbered in the order they were started; \<open>pump_step\<close> takes the pump, the
  commands and the senders through one step each, so a list of steps is one interleaving.

  Shown here: the window gets the events of each server in order, without loss while its
  channel lives, servers one after the other, and at most one late event per stop; the pump
  drains a server's channel; and a stopped server whose session keeps silent holds the pump back.
\<close>

section \<open>The pump and its channels\<close>

text \<open>A channel: what is queued, the senders held by tasks (the handle's own is not counted), and
  the history of all events that entered it.\<close>

record event_chan =
  ec_queue :: "control_plane_event list"
  ec_senders :: nat
  ec_entered :: "control_plane_event list"

record pump_state =
  pm_chan :: "nat \<Rightarrow> event_chan"
  pm_started :: nat
  pm_current :: "nat option"
  pm_held :: "nat option"
  pm_last :: "string option"
  pm_out :: "ui_event list"
  pm_seen :: "(nat \<times> control_plane_event) list"
  pm_stops :: nat
  pm_late :: nat

definition no_chan :: event_chan where
  "no_chan = \<lparr> ec_queue = [], ec_senders = 0, ec_entered = [] \<rparr>"

definition pump_start :: pump_state where
  "pump_start =
     \<lparr> pm_chan = (\<lambda>_. no_chan), pm_started = 0, pm_current = None, pm_held = None, pm_last = None,
       pm_out = [], pm_seen = [], pm_stops = 0, pm_late = 0 \<rparr>"

text \<open>The receiver lives in the handle and in the reference the pump holds.\<close>

definition receiver_alive :: "nat \<Rightarrow> pump_state \<Rightarrow> bool" where
  "receiver_alive n s \<longleftrightarrow> pm_current s = Some n \<or> pm_held s = Some n"

definition sender_alive :: "nat \<Rightarrow> pump_state \<Rightarrow> bool" where
  "sender_alive n s \<longleftrightarrow> pm_current s = Some n \<or> 0 < ec_senders (pm_chan s n)"

definition set_chan :: "nat \<Rightarrow> event_chan \<Rightarrow> pump_state \<Rightarrow> pump_state" where
  "set_chan n c s = s\<lparr>pm_chan := (pm_chan s)(n := c)\<rparr>"

text \<open>With the last reference the receiver is dropped, and what is queued with it.\<close>

definition release :: "nat \<Rightarrow> pump_state \<Rightarrow> pump_state" where
  "release n s = (if receiver_alive n s then s else set_chan n ((pm_chan s n)\<lparr>ec_queue := []\<rparr>) s)"

datatype pump_action =
    PaPump
  | PaStart
  | PaStartFailed
  | PaStop
  | PaSend nat control_plane_event
  | PaClone nat
  | PaDrop nat

text \<open>One turn of the loop, up to its next wait: take the channel, or receive from it.\<close>

definition pump_turn :: "pump_state \<Rightarrow> pump_state" where
  "pump_turn s =
     (case pm_held s of
        None \<Rightarrow> s\<lparr>pm_held := pm_current s\<rparr>
      | Some n \<Rightarrow>
          (case ec_queue (pm_chan s n) of
             [] \<Rightarrow> if sender_alive n s then s else release n (s\<lparr>pm_held := None\<rparr>)
           | ev # evs \<Rightarrow>
               (case pump_event ev (pm_last s) of
                  (l, out) \<Rightarrow>
                    release n (set_chan n ((pm_chan s n)\<lparr>ec_queue := evs\<rparr>)
                      (s\<lparr>pm_held := None, pm_last := l, pm_out := pm_out s @ out,
                         pm_seen := pm_seen s @ [(n, ev)],
                         pm_late := pm_late s + (if pm_current s = Some n then 0 else 1)\<rparr>)))))"

text \<open>A new server: its channel, and the accept task with a sender. A start that fails at the QR
  code drops the handle but leaves the task.\<close>

definition new_server :: "pump_state \<Rightarrow> pump_state" where
  "new_server s = set_chan (pm_started s) (no_chan\<lparr>ec_senders := 1\<rparr>) (s\<lparr>pm_started := Suc (pm_started s)\<rparr>)"

text \<open>\<open>events_tx.send(ev).await\<close> of a task: refused without a receiver, waiting when full.\<close>

definition send_event :: "nat \<Rightarrow> control_plane_event \<Rightarrow> pump_state \<Rightarrow> pump_state" where
  "send_event n ev s =
     (let c = pm_chan s n in
      if 0 < ec_senders c \<and> receiver_alive n s \<and> length (ec_queue c) < EVENTS_CAPACITY
      then set_chan n (c\<lparr>ec_queue := ec_queue c @ [ev], ec_entered := ec_entered c @ [ev]\<rparr>) s
      else s)"

fun pump_step :: "pump_action \<Rightarrow> pump_state \<Rightarrow> pump_state" where
  "pump_step PaPump s = pump_turn s"
| "pump_step PaStart s =
     (if pm_current s = None then (new_server s)\<lparr>pm_current := Some (pm_started s)\<rparr> else s)"
| "pump_step PaStartFailed s = (if pm_current s = None then new_server s else s)"
| "pump_step PaStop s =
     (case pm_current s of
        None \<Rightarrow> s
      | Some n \<Rightarrow> release n (s\<lparr>pm_current := None, pm_stops := Suc (pm_stops s)\<rparr>))"
| "pump_step (PaSend n ev) s = send_event n ev s"
| "pump_step (PaClone n) s =
     (let c = pm_chan s n in if 0 < ec_senders c then set_chan n (c\<lparr>ec_senders := Suc (ec_senders c)\<rparr>) s else s)"
| "pump_step (PaDrop n) s = set_chan n ((pm_chan s n)\<lparr>ec_senders := ec_senders (pm_chan s n) - 1\<rparr>) s"

definition pump_run :: "pump_action list \<Rightarrow> pump_state \<Rightarrow> pump_state" where
  "pump_run acts s = fold pump_step acts s"

text \<open>What the window saw of one server.\<close>

definition seen_of :: "nat \<Rightarrow> pump_state \<Rightarrow> control_plane_event list" where
  "seen_of n s = map snd (filter (\<lambda>p. fst p = n) (pm_seen s))"

section \<open>The invariant\<close>

text \<open>Servers not started yet have no senders, a dead channel is empty, the window's events are a
  prefix of what entered.\<close>

definition chan_ok :: "nat \<Rightarrow> pump_state \<Rightarrow> bool" where
  "chan_ok n s \<longleftrightarrow>
     (pm_started s \<le> n \<longrightarrow> pm_chan s n = no_chan) \<and>
     length (ec_queue (pm_chan s n)) \<le> EVENTS_CAPACITY \<and>
     (\<exists>lost. ec_entered (pm_chan s n) = seen_of n s @ ec_queue (pm_chan s n) @ lost \<and>
        (receiver_alive n s \<longrightarrow> lost = []) \<and> (\<not> receiver_alive n s \<longrightarrow> ec_queue (pm_chan s n) = []))"

text \<open>Servers are seen in the order of their starts, and never after a later one was seen.\<close>

definition order_ok :: "pump_state \<Rightarrow> bool" where
  "order_ok s \<longleftrightarrow>
     sorted (map fst (pm_seen s)) \<and>
     (\<forall>h. pm_held s = Some h \<longrightarrow> h < pm_started s \<and> (\<forall>p \<in> set (pm_seen s). fst p \<le> h)) \<and>
     (\<forall>c. pm_current s = Some c \<longrightarrow> c < pm_started s \<and> (\<forall>h. pm_held s = Some h \<longrightarrow> h \<le> c) \<and>
        (\<forall>p \<in> set (pm_seen s). fst p \<le> c)) \<and>
     (\<forall>p \<in> set (pm_seen s). fst p < pm_started s)"

definition late_ok :: "pump_state \<Rightarrow> bool" where
  "late_ok s \<longleftrightarrow>
     pm_late s + (if pm_held s \<noteq> None \<and> pm_held s \<noteq> pm_current s then 1 else 0) \<le> pm_stops s"

definition output_ok :: "pump_state \<Rightarrow> bool" where
  "output_ok s \<longleftrightarrow> pump (map snd (pm_seen s)) None = (pm_last s, pm_out s)"

lemmas pump_step_defs = pump_turn_def new_server_def send_event_def release_def set_chan_def Let_def

lemma pump_snoc: "pump (evs @ [ev]) l = (case pump evs l of (l1, out) \<Rightarrow>
    case pump_event ev l1 of (l2, out') \<Rightarrow> (l2, out @ out'))"
  by (induction evs arbitrary: l) (simp_all split: prod.splits)

lemma output_ok_step: "output_ok s \<Longrightarrow> output_ok (pump_step a s)"
  by (cases a) (auto simp: pump_step_defs output_ok_def pump_snoc split: option.splits list.splits prod.splits)

lemma late_ok_step: "late_ok s \<Longrightarrow> late_ok (pump_step a s)"
  by (cases a) (auto simp: pump_step_defs late_ok_def split: option.splits list.splits prod.splits if_splits)

lemma order_ok_step: "order_ok s \<Longrightarrow> order_ok (pump_step a s)"
  by (cases a)
    (auto simp: pump_step_defs order_ok_def sorted_append less_Suc_eq_le
      split: option.splits list.splits prod.splits if_splits intro: less_imp_le)

text \<open>Channels: the steps change one channel each.\<close>

lemma seen_of_simps [simp]:
  "seen_of n (s\<lparr>pm_current := c\<rparr>) = seen_of n s" "seen_of n (s\<lparr>pm_held := h\<rparr>) = seen_of n s"
  "seen_of n (s\<lparr>pm_chan := ch\<rparr>) = seen_of n s" "seen_of n (s\<lparr>pm_started := k\<rparr>) = seen_of n s"
  "seen_of n (s\<lparr>pm_stops := k\<rparr>) = seen_of n s" "seen_of n (s\<lparr>pm_late := k\<rparr>) = seen_of n s"
  "seen_of n (s\<lparr>pm_last := l\<rparr>) = seen_of n s" "seen_of n (s\<lparr>pm_out := out\<rparr>) = seen_of n s"
  "seen_of n (s\<lparr>pm_seen := pm_seen s @ [(m, ev)]\<rparr>) = seen_of n s @ (if m = n then [ev] else [])"
  by (simp_all add: seen_of_def)

lemma chan_ok_same:
  assumes "chan_ok n s" and "pm_chan s' n = pm_chan s n" and "seen_of n s' = seen_of n s"
    and "receiver_alive n s' = receiver_alive n s" and "pm_started s \<le> pm_started s'"
  shows "chan_ok n s'"
  using assms unfolding chan_ok_def by auto

lemma chan_ok_release:
  assumes "chan_ok n s" and "pm_chan s' n = pm_chan s n" and "seen_of n s' = seen_of n s"
    and "receiver_alive n s' \<Longrightarrow> receiver_alive n s" and "pm_started s' = pm_started s"
  shows "chan_ok n (release n s')"
proof (cases "receiver_alive n s'")
  case True
  then show ?thesis using assms by (auto simp: release_def chan_ok_def)
next
  case False
  then show ?thesis
    using assms by (auto simp: release_def chan_ok_def set_chan_def receiver_alive_def no_chan_def)
qed

lemma release_other:
  "m \<noteq> n \<Longrightarrow> pm_chan (release m s) n = pm_chan s n" "seen_of n (release m s) = seen_of n s"
  "receiver_alive n (release m s) = receiver_alive n s" "pm_started (release m s) = pm_started s"
  "pm_current (release m s) = pm_current s" "pm_held (release m s) = pm_held s"
  "pm_seen (release m s) = pm_seen s"
  by (simp_all add: release_def set_chan_def receiver_alive_def)

lemma chan_ok_turn:
  assumes ok: "chan_ok n s" and ord: "order_ok s"
  shows "chan_ok n (pump_turn s)"
proof (cases "pm_held s")
  case None
  then show ?thesis
    using chan_ok_same [OF ok, of "pump_turn s"] by (simp add: pump_turn_def receiver_alive_def)
next
  case (Some m)
  then have m: "m < pm_started s" using ord by (simp add: order_ok_def)
  show ?thesis
  proof (cases "ec_queue (pm_chan s m)")
    case Nil
    then show ?thesis
      using ok Some chan_ok_release [OF ok, of "s\<lparr>pm_held := None\<rparr>"]
        chan_ok_same [OF ok, of "release m (s\<lparr>pm_held := None\<rparr>)"]
      by (cases "m = n") (auto simp: pump_turn_def release_other receiver_alive_def)
  next
    case (Cons ev evs)
    obtain l out where ev: "pump_event ev (pm_last s) = (l, out)" by fastforce
    let ?s = "set_chan m ((pm_chan s m)\<lparr>ec_queue := evs\<rparr>) (s\<lparr>pm_last := l, pm_out := pm_out s @ out,
      pm_seen := pm_seen s @ [(m, ev)], pm_late := pm_late s + (if pm_current s = Some m then 0 else 1)\<rparr>)"
    have turn: "pump_turn s = release m (?s\<lparr>pm_held := None\<rparr>)"
      using Some Cons ev by (cases s) (simp add: pump_turn_def set_chan_def)
    show ?thesis
    proof (cases "m = n")
      case True
      then have "chan_ok n ?s"
        using ok m Some Cons by (auto simp: chan_ok_def set_chan_def receiver_alive_def seen_of_def)
      then show ?thesis
        unfolding turn True
        by (rule chan_ok_release) (use True in \<open>auto simp: receiver_alive_def set_chan_def seen_of_def\<close>)
    next
      case False
      then show ?thesis
        unfolding turn using Some
        by (intro chan_ok_same [OF ok])
          (auto simp: release_other set_chan_def receiver_alive_def seen_of_def)
    qed
  qed
qed

lemma chan_ok_step:
  assumes ok: "chan_ok n s" and ord: "order_ok s"
  shows "chan_ok n (pump_step a s)"
proof (cases a)
  case PaPump
  then show ?thesis using chan_ok_turn [OF ok ord] by simp
next
  case PaStop
  then show ?thesis
    using ok chan_ok_release [OF ok, of "s\<lparr>pm_current := None, pm_stops := Suc (pm_stops s)\<rparr>"]
      chan_ok_same [OF ok, of "release (the (pm_current s)) (s\<lparr>pm_current := None, pm_stops := Suc (pm_stops s)\<rparr>)"]
    by (cases "pm_current s = Some n") (auto simp: release_other receiver_alive_def split: option.splits)
next
  case (PaSend m ev)
  then show ?thesis
    using ok by (auto simp: chan_ok_def send_event_def set_chan_def receiver_alive_def no_chan_def Let_def)
next
  case (PaClone m)
  then show ?thesis
    using ok by (auto simp: chan_ok_def set_chan_def receiver_alive_def no_chan_def Let_def)
next
  case (PaDrop m)
  then show ?thesis
    using ok by (auto simp: chan_ok_def set_chan_def receiver_alive_def no_chan_def)
qed (use ok ord in \<open>force simp: chan_ok_def new_server_def set_chan_def receiver_alive_def no_chan_def order_ok_def\<close>)+

definition pump_inv :: "pump_state \<Rightarrow> bool" where
  "pump_inv s \<longleftrightarrow> (\<forall>n. chan_ok n s) \<and> order_ok s \<and> late_ok s \<and> output_ok s"

lemma pump_inv_start: "pump_inv pump_start"
  by (simp add: pump_inv_def chan_ok_def order_ok_def late_ok_def output_ok_def pump_start_def no_chan_def
      seen_of_def)

lemma pump_inv_step: "pump_inv s \<Longrightarrow> pump_inv (pump_step a s)"
  by (simp add: pump_inv_def chan_ok_step order_ok_step late_ok_step output_ok_step)

interpretation pump_system: step_invariant pump_step any_action pump_inv
  by unfold_locales (rule pump_inv_step)

lemma pump_inv_run: "pump_inv s \<Longrightarrow> pump_inv (pump_run acts s)"
  unfolding pump_run_def by (rule pump_system.inv_run) simp_all

section \<open>What the window sees\<close>

text \<open>C36. 
  Whatever the user starts and stops and whenever the sessions speak: the window shows exactly
  what the pump makes of the events seen; of every server it sees a prefix of the events that
  entered the channel, and what is still to be seen is queued as long as the channel lives;
  events of a server never follow those of a later one; and at most one event per stop comes from
  a server that is not the current one.
\<close>

theorem window_sees_servers_in_order:
  assumes "s = pump_run acts pump_start"
  shows "snd (pump (map snd (pm_seen s)) None) = pm_out s \<and>
    prefix (seen_of n s) (ec_entered (pm_chan s n)) \<and>
    (receiver_alive n s \<longrightarrow> seen_of n s @ ec_queue (pm_chan s n) = ec_entered (pm_chan s n)) \<and>
    length (ec_queue (pm_chan s n)) \<le> EVENTS_CAPACITY \<and>
    sorted (map fst (pm_seen s)) \<and> pm_late s \<le> pm_stops s"
proof -
  have inv: "chan_ok n s" "order_ok s" "late_ok s" "output_ok s"
    using pump_inv_run [OF pump_inv_start, of acts] assms by (simp_all add: pump_inv_def)
  then show ?thesis
    by (fastforce simp: chan_ok_def order_ok_def late_ok_def output_ok_def split: if_splits)
qed

text \<open>A server is stopped while the pump waits on it and its session speaks once more; the next one
  is served right after.\<close>

definition restart_run :: "pump_action list" where
  "restart_run = [PaStart, PaPump, PaSend 0 (EvClosed ''a''), PaStop, PaStart, PaSend 1 (EvClosed ''b''),
     PaSend 1 (EvClosed ''c''), PaPump, PaPump, PaPump]"

lemmas pump_eval = pump_run_def pump_start_def pump_step_defs receiver_alive_def sender_alive_def
  no_chan_def EVENTS_CAPACITY_def pump_event_def seen_of_def restart_run_def

theorem window_sees_servers_in_order_witness:
  "let s = pump_run restart_run pump_start in
   pm_out s = [UiClosed ''a'', UiClosed ''b''] \<and> pm_late s = 1 \<and> pm_late s \<le> pm_stops s \<and>
   seen_of 1 s @ [EvClosed ''c''] = ec_entered (pm_chan s 1)"
proof -
  let ?s = "pump_run restart_run pump_start"
  have "pm_out ?s = [UiClosed ''a'', UiClosed ''b'']" "pm_late ?s = 1" "receiver_alive 1 ?s"
    "ec_queue (pm_chan ?s 1) = [EvClosed ''c'']"
    by (simp_all add: pump_eval)
  then show ?thesis using window_sees_servers_in_order [OF refl, of restart_run 1] by (simp add: Let_def)
qed

section \<open>Progress\<close>

lemma turn_takes:
  assumes "pm_held s = None" and "pm_current s = Some c" and "ec_queue (pm_chan s c) = ev # evs"
  shows "pm_held (pump_run [PaPump, PaPump] s) = None \<and> pm_current (pump_run [PaPump, PaPump] s) = Some c \<and>
    ec_queue (pm_chan (pump_run [PaPump, PaPump] s) c) = evs \<and>
    seen_of c (pump_run [PaPump, PaPump] s) = seen_of c s @ [ev]"
  using assms
  by (auto simp: pump_run_def pump_turn_def release_def receiver_alive_def set_chan_def seen_of_def
      split: prod.splits)

lemma pump_run_append: "pump_run (as @ bs) s = pump_run bs (pump_run as s)"
  by (simp add: pump_run_def)

lemma pump_drains_queue:
  assumes "pm_held s = None" and "pm_current s = Some c" and "ec_queue (pm_chan s c) = evs"
  shows "seen_of c (pump_run (concat (replicate (length evs) [PaPump, PaPump])) s) = seen_of c s @ evs"
  using assms
proof (induction evs arbitrary: s)
  case Nil
  then show ?case by (simp add: pump_run_def)
next
  case (Cons ev evs)
  let ?s = "pump_run [PaPump, PaPump] s"
  have "seen_of c (pump_run (concat (replicate (length evs) [PaPump, PaPump])) ?s) = seen_of c ?s @ evs"
    using turn_takes [OF Cons.prems] by (intro Cons.IH) simp_all
  moreover have "pump_run (concat (replicate (length (ev # evs)) [PaPump, PaPump])) s =
      pump_run (concat (replicate (length evs) [PaPump, PaPump])) ?s"
    by (simp only: list.size replicate.simps concat.simps add_Suc_right add_0_right pump_run_append)
  ultimately show ?case using turn_takes [OF Cons.prems] by simp
qed



text \<open>
  The pump waits for a stopped server: it holds the channel of an old server that is empty and
  whose session task is still alive. Then, whatever happens to the other servers, no event is
  shown until that task sends one or ends.
\<close>

definition waits_on :: "nat \<Rightarrow> pump_state \<Rightarrow> bool" where
  "waits_on n s \<longleftrightarrow> pm_held s = Some n \<and> n < pm_started s \<and> ec_queue (pm_chan s n) = [] \<and> 0 < ec_senders (pm_chan s n)"

fun speaks :: "nat \<Rightarrow> pump_action \<Rightarrow> bool" where
  "speaks n (PaSend m ev) = (m = n)"
| "speaks n (PaDrop m) = (m = n)"
| "speaks n _ = False"

lemma waits_on_step:
  assumes "waits_on n s" and "\<not> speaks n a"
  shows "waits_on n (pump_step a s) \<and> pm_out (pump_step a s) = pm_out s"
  using assms
  by (cases a) (auto simp: waits_on_def pump_step_defs sender_alive_def receiver_alive_def split: option.splits)

interpretation silent: step_invariant pump_step "\<lambda>a. \<not> speaks n a" "\<lambda>s. waits_on n s \<and> pm_out s = out" for n out
  by unfold_locales (use waits_on_step in blast)

lemma silent_server_holds_pump:
  assumes "waits_on n s" and "\<not> list_ex (speaks n) acts"
  shows "waits_on n (pump_run acts s) \<and> pm_out (pump_run acts s) = pm_out s"
  using silent.inv_run [of n s "pm_out s" acts] assms by (simp add: pump_run_def list_ex_iff list_all_iff)

text \<open>Such a state is reached by stopping a server with a live session and starting the next one.\<close>

lemma silent_server_reached:
  "let s = pump_run [PaStart, PaPump, PaClone 0, PaStop, PaDrop 0, PaStart, PaSend 1 (EvClosed ''b''), PaPump] pump_start
   in waits_on 0 s \<and> pm_current s = Some 1 \<and> ec_queue (pm_chan s 1) = [EvClosed ''b'']"
  by (simp add: pump_eval waits_on_def)

end
