(* ===== verification/Command_Lock.thy ===== *)
theory Command_Lock
  imports Event_Channel Desktop_Shell
begin

text \<open>
  The lock of the application state and the two channels. The shell's command \<open>set_camera\<close>
  (\<open>src-tauri/src/commands.rs\<close>) holds the lock while it waits for room in the outbound channel of
  the session, which has 16 places; only the control plane makes room there. The control plane
  waits for room in the event channel; only the pump (\<open>events.rs\<close>) makes room there, and the pump
  needs the lock before every event. Here the three run side by side, together with the
  adaptation driver, which sends into the outbound channel too; a step that has to wait leaves
  the state as it is.

  Shown: exactly when a waiting command can still get through. If the unfinished branch of the
  control plane has more events than there is room for, counting the one the pump may already
  be waiting for, and the outbound channel is full, no order of steps ever frees the lock;
  otherwise four steps of the program's own tasks free it. The first case is reached from an
  empty channel by seventeen commands and sixty-four messages of the phone.
\<close>

definition OUTBOUND_CAPACITY :: nat where
  "OUTBOUND_CAPACITY = 16"

text \<open>The holder is a command with its message; \<open>lk_pump\<close> says that the pump has the receiver.\<close>

record lock_state =
  lk_plane :: bounded_plane
  lk_outbound :: "control_message list"
  lk_holder :: "control_message option"
  lk_pump :: bool

datatype lock_action =
    LaBytes bytes bool
  | LaWake
  | LaTick bool instant u64
  | LaRecv instant u64
  | LaOutbound bool
  | LaDriver control_message
  | LaPump
  | LaCommand string
  | LaCommandSend

text \<open>The control plane has returned and dropped its end of the outbound channel.\<close>

definition session_over :: "bounded_plane \<Rightarrow> bool" where
  "session_over p \<longleftrightarrow> bp_flow p = Returned \<and> bp_todo p = []"

definition plane_step :: "json_text \<Rightarrow> bounded_action \<Rightarrow> lock_state \<Rightarrow> lock_state" where
  "plane_step J a s = s\<lparr>lk_plane := bounded_step J a (lk_plane s)\<rparr>"

text \<open>A sender of the outbound channel: \<open>None\<close> while it has to wait.\<close>

definition send_outbound :: "control_message \<Rightarrow> lock_state \<Rightarrow> lock_state option" where
  "send_outbound m s =
     (if session_over (lk_plane s) then Some s
      else if length (lk_outbound s) < OUTBOUND_CAPACITY then Some (s\<lparr>lk_outbound := lk_outbound s @ [m]\<rparr>)
      else None)"

fun lock_step :: "json_text \<Rightarrow> lock_action \<Rightarrow> lock_state \<Rightarrow> lock_state" where
  "lock_step J (LaBytes bs eof) s = plane_step J (BaBytes bs eof) s"
| "lock_step J LaWake s = plane_step J BaWake s"
| "lock_step J (LaTick polled now usec) s = plane_step J (BaTick polled now usec) s"
| "lock_step J (LaRecv now usec) s = plane_step J (BaRecv now usec) s"
| "lock_step J (LaOutbound polled) s =
     (case lk_outbound s of
        m # ms \<Rightarrow>
          if in_loop (lk_plane s) then plane_step J (BaOutbound polled (Some m)) (s\<lparr>lk_outbound := ms\<rparr>) else s
      | [] \<Rightarrow> s)"
| "lock_step J (LaDriver m) s = (case send_outbound m s of Some s' \<Rightarrow> s' | None \<Rightarrow> s)"
| "lock_step J LaPump s =
     (if lk_pump s
      then if bp_queue (lk_plane s) = [] then s else plane_step J BaTake (s\<lparr>lk_pump := False\<rparr>)
      else if lk_holder s = None then s\<lparr>lk_pump := True\<rparr> else s)"
| "lock_step J (LaCommand cid) s =
     (if lk_holder s = None then s\<lparr>lk_holder := Some (SetCamera \<lparr> sc_camera_id = cid \<rparr>)\<rparr> else s)"
| "lock_step J LaCommandSend s =
     (case lk_holder s of
        None \<Rightarrow> s
      | Some m \<Rightarrow> (case send_outbound m s of Some s' \<Rightarrow> s'\<lparr>lk_holder := None\<rparr> | None \<Rightarrow> s))"

definition lock_run :: "json_text \<Rightarrow> lock_action list \<Rightarrow> lock_state \<Rightarrow> lock_state" where
  "lock_run J acts s = fold (lock_step J) acts s"

definition lock_start :: "control_plane \<Rightarrow> lock_state" where
  "lock_start cp = \<lparr> lk_plane = bounded_start cp, lk_outbound = [], lk_holder = None, lk_pump = False \<rparr>"

section \<open>When the lock cannot be freed\<close>

text \<open>The events queued and those the branch still has, against the room there can be.\<close>

definition overfull :: "lock_state \<Rightarrow> bool" where
  "overfull s \<longleftrightarrow> EVENTS_CAPACITY + (if lk_pump s then 1 else 0) <
     emits (bp_todo (lk_plane s)) + length (bp_queue (lk_plane s))"

definition doomed :: "lock_state \<Rightarrow> bool" where
  "doomed s \<longleftrightarrow> lk_holder s \<noteq> None \<and> OUTBOUND_CAPACITY \<le> length (lk_outbound s) \<and> overfull s"

definition lock_inv :: "lock_state \<Rightarrow> bool" where
  "lock_inv s \<longleftrightarrow> chan_inv (lk_plane s) \<and> length (lk_outbound s) \<le> OUTBOUND_CAPACITY"

lemma lock_inv_start: "length (cp_events cp) \<le> EVENTS_CAPACITY \<Longrightarrow> lock_inv (lock_start cp)"
  using bounded_inv_start [of cp] by (simp add: lock_inv_def lock_start_def bounded_inv_def)

lemma lock_inv_step: "lock_inv s \<Longrightarrow> lock_inv (lock_step J a s)"
  by (cases a)
    (auto simp: lock_inv_def plane_step_def send_outbound_def simp del: bounded_step.simps
      intro: chan_inv_step split: list.split option.split)

interpretation lock: step_invariant "lock_step J" any_action lock_inv for J
  by unfold_locales (rule lock_inv_step)

lemma lock_inv_run: "lock_inv s \<Longrightarrow> lock_inv (lock_run J acts s)"
  unfolding lock_run_def by (rule lock.inv_run) simp_all

lemma bytes_plane: "bp_todo (bounded_step J (BaBytes bs eof) p) = bp_todo p"
  "bp_queue (bounded_step J (BaBytes bs eof) p) = bp_queue p"
  by simp_all

lemma busy_start: "bp_todo p \<noteq> [] \<Longrightarrow> start_branch p r = p"
  by (simp add: start_branch_def in_loop_def)

lemma overfull_wake: "overfull (plane_step J BaWake s) = overfull s"
  using advance_emits [of "bp_todo (lk_plane s)" "lk_plane s"] by (simp add: overfull_def plane_step_def)

lemma overfull_busy: "overfull s \<Longrightarrow> lock_inv s \<Longrightarrow> bp_todo (lk_plane s) \<noteq> []"
  by (auto simp: overfull_def lock_inv_def chan_inv_def)

lemma plane_step_fields [simp]:
  "lk_outbound (plane_step J a s) = lk_outbound s" "lk_holder (plane_step J a s) = lk_holder s"
  "lk_pump (plane_step J a s) = lk_pump s" "lk_plane (plane_step J a s) = bounded_step J a (lk_plane s)"
  by (simp_all add: plane_step_def)

lemma doomed_step:
  assumes "doomed s" and "lock_inv s"
  shows "doomed (lock_step J a s)"
proof -
  have todo: "bp_todo (lk_plane s) \<noteq> []" using assms overfull_busy by (simp add: doomed_def)
  have same: "plane_step J (BaTick b now usec) s = s" "plane_step J (BaRecv now usec) s = s" for b now usec
    using todo by (simp_all add: plane_step_def busy_start)
  have full: "send_outbound m s = None" for m
    using assms(1) todo by (simp add: doomed_def send_outbound_def session_over_def)
  show ?thesis
  proof (cases a)
    case (LaBytes bs eof)
    then show ?thesis
      using assms(1) bytes_plane [of J bs eof] by (simp add: doomed_def overfull_def del: bounded_step.simps)
  next
    case LaWake
    then show ?thesis using assms(1) by (simp add: doomed_def overfull_wake del: bounded_step.simps)
  next
    case (LaOutbound polled)
    then show ?thesis using assms(1) todo by (simp add: in_loop_def split: list.split)
  next
    case LaPump
    then show ?thesis using assms(1) by (auto simp: doomed_def overfull_def neq_Nil_conv)
  next
    case (LaCommand cid)
    then show ?thesis using assms(1) by (auto simp: doomed_def)
  next
    case LaCommandSend
    then show ?thesis using assms(1) full by (simp split: option.split)
  qed (use assms(1) same full in simp_all)
qed

interpretation doom: step_invariant "lock_step J" any_action "\<lambda>s. doomed s \<and> lock_inv s" for J
  by unfold_locales (simp add: doomed_step lock_inv_step)

lemma doomed_run: "doomed s \<Longrightarrow> lock_inv s \<Longrightarrow> doomed (lock_run J acts s)"
  unfolding lock_run_def using doom.inv_run [of s acts J] by simp

section \<open>When it can\<close>

text \<open>The steps that free the lock if anything does: the pump takes the event it waits for, the control
  plane goes on and sends a message, the command sends its own.\<close>

definition way_out :: "lock_action list" where
  "way_out = [LaPump, LaWake, LaOutbound False, LaCommandSend]"

lemma pump_makes_room:
  assumes "lock_inv s" and "lk_holder s = Some m" and "\<not> overfull s"
  shows "emits (bp_todo (lk_plane (lock_step J LaPump s))) + length (bp_queue (lk_plane (lock_step J LaPump s)))
    \<le> EVENTS_CAPACITY"
proof (cases "bp_queue (lk_plane s)")
  case Nil
  then show ?thesis using assms by (simp add: lock_inv_def chan_inv_def EVENTS_CAPACITY_def)
next
  case (Cons ev q)
  then show ?thesis using assms(2,3) by (auto simp: overfull_def split: if_splits)
qed

lemma wake_completes:
  assumes "lock_inv s" and "emits (bp_todo (lk_plane s)) + length (bp_queue (lk_plane s)) \<le> EVENTS_CAPACITY"
  shows "bp_todo (lk_plane (lock_step J LaWake s)) = []"
proof -
  let ?p = "lk_plane s"
  have "chan_inv (advance (bp_todo ?p) ?p)"
    using lock_inv_step [OF assms(1), of J LaWake] by (simp add: lock_inv_def)
  moreover have "bp_todo (advance (bp_todo ?p) ?p) = [] \<or> emits (bp_todo (advance (bp_todo ?p) ?p)) = 0"
    using assms(2) advance_emits [of "bp_todo ?p" ?p] advance_stops [of ?p "bp_todo ?p"] by auto
  ultimately show ?thesis using no_emits_no_wait by auto
qed

lemma outbound_makes_room:
  assumes "lock_inv s" and "bp_todo (lk_plane s) = []"
  shows "send_outbound m (lock_step J (LaOutbound False) s) \<noteq> None"
proof (cases "bp_flow (lk_plane s)")
  case Continue
  then show ?thesis
    using assms by (auto simp: in_loop_def send_outbound_def lock_inv_def OUTBOUND_CAPACITY_def
        simp del: bounded_step.simps split: list.split)
next
  case Returned
  then show ?thesis
    using assms(2) by (simp add: in_loop_def send_outbound_def session_over_def split: list.split)
qed

lemma send_outbound_kept:
  "send_outbound m s \<noteq> None \<longleftrightarrow> session_over (lk_plane s) \<or> length (lk_outbound s) < OUTBOUND_CAPACITY"
  by (simp add: send_outbound_def)

lemma quiet_steps:
  "lk_holder (lock_step J LaPump s) = lk_holder s" "lk_outbound (lock_step J LaPump s) = lk_outbound s"
  "lk_holder (lock_step J LaWake s) = lk_holder s" "lk_outbound (lock_step J LaWake s) = lk_outbound s"
  "lk_holder (lock_step J (LaOutbound b) s) = lk_holder s"
  "length (lk_outbound (lock_step J (LaOutbound b) s)) \<le> length (lk_outbound s)"
  by (simp_all split: list.split)

lemma lock_freed:
  assumes inv: "lock_inv s" and m: "lk_holder s = Some m" and ok: "\<not> doomed s"
  shows "lk_holder (lock_run J way_out s) = None"
proof -
  let ?s1 = "lock_step J LaPump s"
  let ?s2 = "lock_step J LaWake ?s1"
  let ?s3 = "lock_step J (LaOutbound False) ?s2"
  have i: "lock_inv ?s1" "lock_inv ?s2" using inv lock_inv_step by blast+
  have m3: "lk_holder ?s3 = Some m" by (simp only: quiet_steps m)
  have "send_outbound m ?s3 \<noteq> None"
  proof (cases "overfull s")
    case True
    then have "length (lk_outbound s) < OUTBOUND_CAPACITY" using ok m by (simp add: doomed_def)
    then have "length (lk_outbound ?s3) < OUTBOUND_CAPACITY"
      using quiet_steps(6) [of J False ?s2] by (simp only: quiet_steps(2,4))
    then show ?thesis unfolding send_outbound_kept by blast
  next
    case False
    then show ?thesis using outbound_makes_room [OF i(2)] wake_completes [OF i(1)] pump_makes_room [OF inv m] by blast
  qed
  then have "lk_holder (lock_step J LaCommandSend ?s3) = None" using m3 by (simp del: lock_step.simps(5) add: option.case_eq_if)
  then show ?thesis by (simp only: lock_run_def way_out_def fold.simps o_apply id_apply)
qed

text \<open>C17. 
  A command that holds the lock of the application state, in any interleaving of commands, pump,
  control plane, driver and arriving bytes: if the outbound channel is full and the control
  plane has more events to send than there can be room for, the lock is never free again, so no
  command is answered and no event reaches the window any more; otherwise one turn of the pump, of
  the control plane and of the command frees it.
\<close>

theorem command_lock_freed_iff:
  assumes "length (cp_events cp) \<le> EVENTS_CAPACITY" and "s = lock_run J acts (lock_start cp)"
    and "lk_holder s = Some m"
  shows "if doomed s then \<forall>later. lk_holder (lock_run J later s) \<noteq> None
    else lk_holder (lock_run J way_out s) = None"
proof -
  have inv: "lock_inv s" unfolding assms(2) using lock_inv_start [OF assms(1)] by (rule lock_inv_run)
  show ?thesis
    using doomed_run [OF _ inv] lock_freed [OF inv assms(3)] by (auto simp: doomed_def)
qed

theorem command_lock_freed_iff_witness:
  "lk_holder (lock_run ping_text [LaCommand ''front''] (lock_start ping_plane)) \<noteq> None \<and>
   lk_holder (lock_run ping_text way_out (lock_run ping_text [LaCommand ''front''] (lock_start ping_plane))) = None"
proof -
  let ?s = "lock_run ping_text [LaCommand ''front''] (lock_start ping_plane)"
  have "length (cp_events ping_plane) \<le> EVENTS_CAPACITY"
    by (simp add: ping_plane_def cp_start_def EVENTS_CAPACITY_def Let_def)
  moreover have "lk_holder ?s = Some (SetCamera \<lparr> sc_camera_id = ''front'' \<rparr>)" "\<not> doomed ?s"
    by (simp_all add: lock_run_def lock_start_def doomed_def OUTBOUND_CAPACITY_def)
  ultimately show ?thesis using command_lock_freed_iff [OF _ refl, of ping_plane ping_text "[LaCommand ''front'']"] by simp
qed

section \<open>The deadlock is reached\<close>

text \<open>Between messages, with \<open>n\<close> events in the channel.\<close>

definition listening :: "nat \<Rightarrow> bounded_plane \<Rightarrow> bool" where
  "listening n p \<longleftrightarrow> in_loop p \<and> length (bp_queue p) = n \<and>
     rx (cst_wire (cp_control (bp_cp p))) = [] \<and> \<not> rx_eof (cst_wire (cp_control (bp_cp p)))"

definition hear :: "json_text \<Rightarrow> control_envelope \<Rightarrow> lock_action list" where
  "hear J env = [LaBytes (wire_bytes J env) False, LaRecv 0 0]"

lemma recv_mode_applied:
  assumes "carried J env" and "ev_body env = ModeApplied ma" and "listening n p"
  obtains cp where "recv_branch J now usec (bp_cp (bounded_step J (BaBytes (wire_bytes J env) False) p)) =
      Some (Continue, cp, [Emit (EvModeApplied (ma_mode ma))])"
    "rx (cst_wire (cp_control cp)) = []" "\<not> rx_eof (cst_wire (cp_control cp))"
proof -
  let ?cp = "deliver (wire_bytes J env) False (bp_cp p)"
  let ?c = "cp_control ?cp"
  have wire: "rx (cst_wire ?c) = wire_bytes J env @ []" "\<not> rx_eof (cst_wire ?c)"
    using assms(3) by (simp_all add: listening_def deliver_def Let_def)
  have "cs_recv J ?c = (Ready (Inr env), ?c\<lparr>cst_wire := (cst_wire ?c)\<lparr>rx := []\<rparr>\<rparr>)"
    by (rule recv_carried [OF assms(1) wire(1)])
  moreover have "bp_cp (bounded_step J (BaBytes (wire_bytes J env) False) p) = ?cp"
    using assms(3) by (simp add: listening_def in_loop_def)
  ultimately show thesis using that assms(2) wire(2) by (simp add: recv_branch_def handle_branch_def)
qed

lemma lock_run_simps:
  "lock_run J [] s = s" "lock_run J (a # as) s = lock_run J as (lock_step J a s)"
  "lock_run J (as @ bs) s = lock_run J bs (lock_run J as s)"
  by (simp_all add: lock_run_def)

text \<open>One message of the phone: its event enters the channel, or waits when it is full.\<close>

lemma hear_step:
  assumes "carried J env" and "ev_body env = ModeApplied ma" and "listening n (lk_plane s)" and "n \<le> EVENTS_CAPACITY"
  defines "s' \<equiv> lock_run J (hear J env) s"
  shows "lk_holder s' = lk_holder s \<and> lk_outbound s' = lk_outbound s \<and> lk_pump s' = lk_pump s \<and>
    (if n < EVENTS_CAPACITY then listening (Suc n) (lk_plane s')
     else emits (bp_todo (lk_plane s')) = 1 \<and> length (bp_queue (lk_plane s')) = n)"
proof -
  let ?p = "bounded_step J (BaBytes (wire_bytes J env) False) (lk_plane s)"
  obtain cp where r: "recv_branch J 0 0 (bp_cp ?p) = Some (Continue, cp, [Emit (EvModeApplied (ma_mode ma))])"
    "rx (cst_wire (cp_control cp)) = []" "\<not> rx_eof (cst_wire (cp_control cp))"
    using recv_mode_applied [OF assms(1-3)] by blast
  have p: "in_loop ?p" "length (bp_queue ?p) = n" using assms(3) by (simp_all add: listening_def in_loop_def)
  have s': "s' = s\<lparr>lk_plane := start_branch ?p (Some (Continue, cp, [Emit (EvModeApplied (ma_mode ma))]))\<rparr>"
    unfolding s'_def hear_def lock_run_simps lock_step.simps plane_step_def using r(1) by simp
  show ?thesis
    unfolding s' using p assms(4) r(2,3) by (simp add: start_branch_def listening_def in_loop_def emit_def)
qed

lemma hear_many:
  assumes "carried J env" and "ev_body env = ModeApplied ma" and "listening n (lk_plane s)" and "n + k = EVENTS_CAPACITY"
  defines "s' \<equiv> lock_run J (concat (replicate (Suc k) (hear J env))) s"
  shows "lk_holder s' = lk_holder s \<and> lk_outbound s' = lk_outbound s \<and> lk_pump s' = lk_pump s \<and>
    emits (bp_todo (lk_plane s')) = 1 \<and> length (bp_queue (lk_plane s')) = EVENTS_CAPACITY"
  using assms(3,4) unfolding s'_def
proof (induction k arbitrary: n s)
  case 0
  then show ?case using hear_step [OF assms(1,2) 0(1)] by (simp add: lock_run_simps)
next
  case (Suc k)
  let ?s = "lock_run J (hear J env) s"
  have s: "lk_holder ?s = lk_holder s" "lk_outbound ?s = lk_outbound s" "lk_pump ?s = lk_pump s"
    "listening (Suc n) (lk_plane ?s)"
    using hear_step [OF assms(1,2) Suc.prems(1)] Suc.prems(2) by (simp_all split: if_splits)
  have "lock_run J (concat (replicate (Suc (Suc k)) (hear J env))) s = lock_run J (concat (replicate (Suc k) (hear J env))) ?s"
    by (simp only: replicate.simps concat.simps lock_run_simps)
  then show ?case using Suc.IH [OF s(4)] Suc.prems(2) s by simp
qed

text \<open>Commands fill the outbound channel while the control plane is not scheduled; one more waits.\<close>

lemma commands_queue_up:
  fixes J :: json_text and cid :: string
  assumes "\<not> session_over (lk_plane s)" and "lk_holder s = None" and "length (lk_outbound s) + k = OUTBOUND_CAPACITY"
  defines "s' \<equiv> lock_run J (concat (replicate k [LaCommand cid, LaCommandSend]) @ [LaCommand cid]) s"
  shows "lk_plane s' = lk_plane s \<and> lk_pump s' = lk_pump s \<and> lk_holder s' \<noteq> None \<and>
    length (lk_outbound s') = OUTBOUND_CAPACITY"
  using assms(1-3) unfolding s'_def
proof (induction k arbitrary: s)
  case 0
  then show ?case by (simp add: lock_run_simps)
next
  case (Suc k)
  let ?s = "s\<lparr>lk_outbound := lk_outbound s @ [SetCamera \<lparr> sc_camera_id = cid \<rparr>]\<rparr>"
  have "lock_run J [LaCommand cid, LaCommandSend] s = ?s"
    using Suc.prems by (cases s) (simp add: lock_run_simps send_outbound_def)
  then show ?case using Suc.IH [of ?s] Suc.prems by (simp add: lock_run_simps)
qed

text \<open>Sixteen commands that get through, one that waits, and sixty-four messages.\<close>

definition deadlock_run :: "json_text \<Rightarrow> control_envelope \<Rightarrow> string \<Rightarrow> lock_action list" where
  "deadlock_run J env cid =
     concat (replicate 16 [LaCommand cid, LaCommandSend]) @ [LaCommand cid] @ concat (replicate 64 (hear J env))"

text \<open>C18. 
  The deadlock is real: a session starts with an empty event channel; seventeen camera commands
  come before the control plane gets to send the first of them, and the phone has sent
  sixty-four messages that are events for the window. Then nothing ever frees the lock.
\<close>

theorem command_deadlock:
  assumes "carried J env" and "ev_body env = ModeApplied ma" and "cp = cp_start t (idle_stream []) snap [] tele now"
  shows "lk_holder (lock_run J (deadlock_run J env cid @ later) (lock_start cp)) \<noteq> None"
proof -
  let ?s0 = "lock_start cp"
  let ?s1 = "lock_run J (concat (replicate 16 [LaCommand cid, LaCommandSend]) @ [LaCommand cid]) ?s0"
  let ?s2 = "lock_run J (concat (replicate 64 (hear J env))) ?s1"
  have l: "listening 1 (lk_plane ?s0)"
    by (simp add: assms(3) listening_def lock_start_def bounded_start_def in_loop_def cp_start_def idle_stream_def
        broadcast_def emit_def Let_def)
  have start: "\<not> session_over (lk_plane ?s0)" "lk_holder ?s0 = None" "length (lk_outbound ?s0) + 16 = OUTBOUND_CAPACITY"
    by (simp_all add: lock_start_def session_over_def bounded_start_def OUTBOUND_CAPACITY_def)
  note s1 = commands_queue_up [OF start, of J cid]
  have s1l: "listening 1 (lk_plane ?s1)" using l s1 by simp
  have n: "Suc 63 = (64 :: nat)" by simp
  have s2: "lk_holder ?s2 \<noteq> None" "length (lk_outbound ?s2) = OUTBOUND_CAPACITY" "lk_pump ?s2 = False"
    "emits (bp_todo (lk_plane ?s2)) = 1" "length (bp_queue (lk_plane ?s2)) = EVENTS_CAPACITY"
    using hear_many [OF assms(1,2) s1l, of 63, unfolded n] s1 by (simp_all add: EVENTS_CAPACITY_def lock_start_def)
  then have "doomed ?s2" by (simp add: doomed_def overfull_def)
  moreover have "length (cp_events cp) \<le> EVENTS_CAPACITY" by (simp add: assms(3) cp_start_def Let_def EVENTS_CAPACITY_def)
  then have "lock_inv ?s2" using lock_inv_start lock_inv_run by blast
  ultimately have "lk_holder (lock_run J later ?s2) \<noteq> None" using doomed_run by (simp add: doomed_def)
  moreover have "lock_run J (deadlock_run J env cid @ later) ?s0 = lock_run J later ?s2"
    by (simp only: deadlock_run_def lock_run_simps(3))
  ultimately show ?thesis by simp
qed

definition mode_env :: control_envelope where
  "mode_env = \<lparr> ev_seq = 1, ev_ack = None,
     ev_body = ModeApplied \<lparr> ma_mode = default_streaming_1080p30, ma_at_seq = 0 \<rparr> \<rparr>"

theorem command_deadlock_witness:
  "\<exists>J. lk_holder (lock_run J (deadlock_run J mode_env ''back'' @ [LaWake, LaPump, LaOutbound False, LaCommandSend])
     (lock_start ping_plane)) \<noteq> None"
proof -
  have "carried (table_text (map enc_envelope [mode_env])) mode_env"
    by (rule carried_table) (simp_all add: env_ok_def mode_env_def)
  then show ?thesis using command_deadlock [OF _ _ ping_plane_def] by (force simp: mode_env_def)
qed

end
