(* ===== verification/Accept_Timing.thy ===== *)
theory Accept_Timing
  imports App_Core "HOL-Library.Sublist"
begin

text \<open>
  The accept loop in time (\<open>crates/session/src/handshake.rs\<close>, \<open>pairing.rs\<close> and the loop of
  \<open>spawn_accept_loop\<close> in \<open>crates/app/src/lib.rs\<close>). \<open>Session_Handshake\<close> reads from what has arrived
  and takes a read that finds too little for one that timed out. Here a connection carries the
  times at which the peer's bytes arrive, every read waits for them until its deadline, and the
  loop serves one connection after the other. Replies are short and do not wait.

  Shown: the timed handshakes give what the untimed ones give on the bytes that arrived in time,
  so the timed loop is a run of the core; no peer holds the loop for more than ten seconds;
  and peers that say nothing do hold it, for five seconds each.
\<close>

section \<open>Waiting for bytes\<close>

text \<open>Bytes that arrive at an instant, and whether the peer closes after them.\<close>

type_synonym arrival = "instant \<times> bytes \<times> bool"

definition feed :: "arrival \<Rightarrow> wire \<Rightarrow> wire" where
  "feed a w = (case a of (t, bs, eof) \<Rightarrow> w\<lparr>rx := rx w @ bs, rx_eof := rx_eof w \<or> eof\<rparr>)"

fun wait_until :: "(wire \<Rightarrow> bool) \<Rightarrow> instant \<Rightarrow> instant \<Rightarrow> arrival list \<Rightarrow> wire \<Rightarrow> instant \<times> arrival list \<times> wire" where
  "wait_until ready deadline now [] w = ((if ready w then now else deadline), [], w)"
| "wait_until ready deadline now (a # as) w =
     (if ready w then (now, a # as, w)
      else if fst a \<le> deadline then wait_until ready deadline (max now (fst a)) as (feed a w)
      else (deadline, a # as, w))"

definition frame_ready :: "wire \<Rightarrow> bool" where
  "frame_ready w \<longleftrightarrow> fst (read_frame w) \<noteq> Pending"

definition bytes_ready :: "nat \<Rightarrow> wire \<Rightarrow> bool" where
  "bytes_ready n w \<longleftrightarrow> fst (read_exact n w) \<noteq> Pending"

section \<open>The handshakes\<close>

text \<open>What \<open>accept_control\<close> does once AUTH is there or its deadline has passed.\<close>

definition token_step ::
    "json_text \<Rightarrow> string \<Rightarrow> string \<Rightarrow> hello \<Rightarrow> control_stream \<Rightarrow> (session_error + accepted_session) \<times> control_stream" where
  "token_step J uuid expected_token hello s =
     (case auth_receive J s of
        (Inl e, s2) \<Rightarrow> (Inl e, s2)
      | (Inr (ack, auth), s2) \<Rightarrow>
          (case auth of
             AuthPairingKey _ \<Rightarrow> reject J ack EcUnauthorized ''bad token'' Unauthorized s2
           | AuthToken presented_token \<Rightarrow>
               if presented_token \<noteq> expected_token
               then reject J ack EcUnauthorized ''bad token'' Unauthorized s2
               else auth_finish J uuid hello ack presented_token s2))"

definition accept_control_timed ::
    "json_text \<Rightarrow> string \<Rightarrow> string \<Rightarrow> capability list \<Rightarrow> instant \<Rightarrow> arrival list \<Rightarrow> control_stream
     \<Rightarrow> instant \<times> (session_error + accepted_session) \<times> control_stream" where
  "accept_control_timed J uuid expected_token caps now as s =
     (case wait_until frame_ready (now + HANDSHAKE_TIMEOUT) now as (cst_wire s) of
        (now1, as1, w1) \<Rightarrow>
          (case hello_exchange J caps (s\<lparr>cst_wire := w1\<rparr>) of
             (Inl e, s1) \<Rightarrow> (now1, Inl e, s1)
           | (Inr hello, s1) \<Rightarrow>
               (case wait_until frame_ready (now1 + HANDSHAKE_TIMEOUT) now1 as1 (cst_wire s1) of
                  (now2, as2, w2) \<Rightarrow> (now2, token_step J uuid expected_token hello (s1\<lparr>cst_wire := w2\<rparr>)))))"

text \<open>The media hello: first its length, then that many bytes, each with its own deadline.\<close>

definition read_media_hello_timed ::
    "json_text \<Rightarrow> instant \<Rightarrow> arrival list \<Rightarrow> media_stream \<Rightarrow> instant \<times> (session_error + media_binding) \<times> media_stream" where
  "read_media_hello_timed J now as s =
     (case wait_until (bytes_ready 4) (now + MEDIA_HANDSHAKE_TIMEOUT) now as (ms_wire s) of
        (now1, as1, w1) \<Rightarrow>
          if length (rx w1) < 4 then (now1, read_media_hello J (s\<lparr>ms_wire := w1\<rparr>))
          else
            let len = unat (from_be_bytes32 (take 4 (rx w1))) in
            (case wait_until (bytes_ready (4 + len)) (now1 + MEDIA_HANDSHAKE_TIMEOUT) now1 as1 w1 of
               (now2, as2, w2) \<Rightarrow> (now2, read_media_hello J (s\<lparr>ms_wire := w2\<rparr>))))"

section \<open>The loop\<close>

datatype connection =
    ControlConn string control_stream "arrival list"
  | MediaConn media_stream "arrival list"

definition serve_control ::
    "json_text \<Rightarrow> string \<Rightarrow> control_stream \<Rightarrow> arrival list \<Rightarrow> instant \<Rightarrow> 'k app_handle \<Rightarrow> instant \<times> 'k app_handle" where
  "serve_control J uuid cs as now app =
     (let app1 = set_state WifiHandshake app in
      case accept_control_timed J uuid (qr_token (ap_qr app)) server_caps now as cs of
        (now', Inr acc, cs') \<Rightarrow>
          let app2 = app1\<lparr>ap_pending := bindings_insert (ac_session_id acc) (ac_token acc)
                            (length (ap_sessions app)) (ap_pending app)\<rparr>
          in (now', add_session (new_session TagWifi acc cs' now' app2) app2)
      | (now', Inl e, cs') \<Rightarrow> (now', set_state (Listening 0 0) app1))"

definition serve_media ::
    "json_text \<Rightarrow> media_stream \<Rightarrow> arrival list \<Rightarrow> instant \<Rightarrow> 'k app_handle \<Rightarrow> instant \<times> 'k app_handle" where
  "serve_media J ms as now app =
     (case read_media_hello_timed J now as ms of
        (now', Inl e, ms') \<Rightarrow> (now', app)
      | (now', Inr b, ms') \<Rightarrow>
          (now', case bindings_take (mb_session_id b) (mb_token b) (ap_pending app) of
                   (None, pending') \<Rightarrow> app
                 | (Some n, pending') \<Rightarrow>
                     update_session n (\<lambda>se. se\<lparr>se_inbox := Some ms'\<rparr>) (app\<lparr>ap_pending := pending'\<rparr>)))"

definition serve_one :: "json_text \<Rightarrow> connection \<Rightarrow> instant \<Rightarrow> 'k app_handle \<Rightarrow> instant \<times> 'k app_handle" where
  "serve_one J c now app =
     (case c of ControlConn uuid s as \<Rightarrow> serve_control J uuid s as now app | MediaConn s as \<Rightarrow> serve_media J s as now app)"

fun serve :: "json_text \<Rightarrow> connection list \<Rightarrow> instant \<Rightarrow> 'k app_handle \<Rightarrow> instant \<times> 'k app_handle" where
  "serve J [] now app = (now, app)"
| "serve J (c # cs) now app = (case serve_one J c now app of (now', app') \<Rightarrow> serve J cs now' app')"

section \<open>Deadlines\<close>

lemma wait_until_time:
  "wait_until ready deadline now as w = (now', as', w') \<Longrightarrow> now \<le> deadline \<Longrightarrow> now \<le> now' \<and> now' \<le> deadline"
  by (induction ready deadline now as w rule: wait_until.induct) (auto split: if_splits)

lemma accept_control_time:
  assumes "accept_control_timed J uuid tok caps now as s = (now', r, s')"
  shows "now \<le> now' \<and> now' \<le> now + 2 * HANDSHAKE_TIMEOUT"
  using assms by (auto simp: accept_control_timed_def dest!: wait_until_time split: prod.splits sum.splits)

lemma media_hello_time:
  assumes "read_media_hello_timed J now as s = (now', r, s')"
  shows "now \<le> now' \<and> now' \<le> now + 2 * MEDIA_HANDSHAKE_TIMEOUT"
  using assms
  by (auto simp: read_media_hello_timed_def Let_def dest!: wait_until_time split: prod.splits if_splits)

section \<open>The untimed handshakes\<close>

definition feed_all :: "arrival list \<Rightarrow> wire \<Rightarrow> wire" where
  "feed_all as w = fold feed as w"

definition fed :: "arrival list \<Rightarrow> control_stream \<Rightarrow> control_stream" where
  "fed as s = s\<lparr>cst_wire := feed_all as (cst_wire s)\<rparr>"

lemma wait_until_fed:
  "wait_until ready deadline now as w = (now', as', w') \<Longrightarrow> \<exists>used. as = used @ as' \<and> w' = feed_all used w"
proof (induction ready deadline now as w rule: wait_until.induct)
  case (1 ready deadline now w)
  then show ?case by (simp add: feed_all_def)
next
  case (2 ready deadline now a as w)
  show ?case
  proof (cases "ready w \<or> deadline < fst a")
    case True
    then have "as' = a # as \<and> w' = w" using 2(2) by (auto split: if_splits)
    then show ?thesis by (intro exI [of _ "[]"]) (simp add: feed_all_def)
  next
    case False
    then obtain used where "as = used @ as'" "w' = feed_all used (feed a w)" using 2 by auto
    then show ?thesis by (intro exI [of _ "a # used"]) (simp add: feed_all_def)
  qed
qed

lemma feed_fields [simp]:
  "tx (feed a w) = tx w" "tx_room (feed a w) = tx_room w" "rx (feed a w) = rx w @ fst (snd a)"
  by (simp_all add: feed_def split: prod.split)

text \<open>Later bytes do not change a frame that is complete, nor what is written.\<close>

lemma read_exact_feed:
  "read_exact n w = (Ready (Inr bs), w1) \<Longrightarrow> read_exact n (feed a w) = (Ready (Inr bs), feed a w1)"
  by (cases a) (auto simp: read_exact_def feed_def split: if_splits)

lemma read_frame_feed:
  assumes "read_frame w = (Ready (Inr bs), w1)"
  shows "read_frame (feed a w) = (Ready (Inr bs), feed a w1)"
proof -
  obtain p w0 where p: "read_exact 4 w = (Ready (Inr p), w0)" "\<not> MAX_PAYLOAD_USIZE < unat (from_be_bytes32 p)"
    "read_exact (unat (from_be_bytes32 p)) w0 = (Ready (Inr bs), w1)"
    using assms by (auto simp: read_frame_def Let_def split: prod.splits poll.splits sum.splits if_splits)
  then show ?thesis
    using read_exact_feed [OF p(1), of a] read_exact_feed [OF p(3), of a] by (simp add: read_frame_def)
qed

lemma write_all_feed: "write_all bs (feed a w) = apsnd (feed a) (write_all bs w)"
  by (cases a) (auto simp: write_all_def feed_def split: option.splits)

lemma write_frame_feed: "write_frame bs (feed a w) = apsnd (feed a) (write_frame bs w)"
  by (simp add: write_frame_def write_all_feed split: prod.split sum.split)

definition feed_stream :: "arrival \<Rightarrow> control_stream \<Rightarrow> control_stream" where
  "feed_stream a s = s\<lparr>cst_wire := feed a (cst_wire s)\<rparr>"

lemma cs_recv_feed:
  assumes "cs_recv J s = (Ready (Inr env), s1)"
  shows "cs_recv J (feed_stream a s) = (Ready (Inr env), feed_stream a s1)"
proof -
  obtain buf w where w: "read_frame (cst_wire s) = (Ready (Inr buf), w)" "from_slice J buf = Some env" "s1 = s\<lparr>cst_wire := w\<rparr>"
    using assms by (auto simp: cs_recv_def split: prod.splits poll.splits sum.splits option.splits)
  then show ?thesis using read_frame_feed [OF w(1), of a] by (simp add: cs_recv_def feed_stream_def)
qed

lemma hs_send_feed: "hs_send J env (feed_stream a s) = apsnd (feed_stream a) (hs_send J env s)"
  by (auto simp: hs_send_def cs_send_def feed_stream_def write_frame_feed Let_def split: prod.split sum.split option.split)

lemma hello_exchange_feed:
  assumes "hello_exchange J caps s = (Inr hello, s1)"
  shows "hello_exchange J caps (feed_stream a s) = (Inr hello, feed_stream a s1)"
proof -
  obtain env s0 where r: "hs_recv J s = (Inr env, s0)" and b: "ev_body env = Hello hello"
    and v: "hl_proto_ver hello = PROTO_VER"
    and w: "hs_send J (hello_ack_envelope (ev_seq env) (agreed_caps caps hello)) s0 = (Inr (), s1)"
    using assms by (auto simp: hello_exchange_def reject_def split: prod.splits sum.splits control_message.splits if_splits)
  have "hs_recv J (feed_stream a s) = (Inr env, feed_stream a s0)"
    using r cs_recv_feed unfolding hs_recv_Inr by blast
  then show ?thesis using w b v by (simp add: hello_exchange_def hs_send_feed)
qed

lemma hello_exchange_fed:
  "hello_exchange J caps s = (Inr hello, s1) \<Longrightarrow> hello_exchange J caps (fed as s) = (Inr hello, fed as s1)"
proof (induction as arbitrary: s s1)
  case Nil
  then show ?case by (simp add: fed_def feed_all_def)
next
  case (Cons a as)
  have "fed (a # as) x = fed as (feed_stream a x)" for x by (simp add: fed_def feed_all_def feed_stream_def)
  then show ?case using Cons.IH [OF hello_exchange_feed [OF Cons.prems]] by simp
qed

lemma accept_control_steps:
  "accept_control J uuid tok caps s =
     (case hello_exchange J caps s of (Inl e, s1) \<Rightarrow> (Inl e, s1) | (Inr hello, s1) \<Rightarrow> token_step J uuid tok hello s1)"
  by (simp add: accept_control_def token_step_def cong: if_cong split: prod.split sum.split)

lemma fed_append: "fed (xs @ ys) s = fed ys (fed xs s)"
  by (simp add: fed_def feed_all_def)

text \<open>The timed handshake is the untimed one on the bytes that arrived in time.\<close>

lemma accept_control_in_time:
  assumes "accept_control_timed J uuid tok caps now as s = (now', r, s')"
  shows "\<exists>used. prefix used as \<and> accept_control J uuid tok caps (fed used s) = (r, s')"
proof -
  obtain now1 as1 w1 where w1: "wait_until frame_ready (now + HANDSHAKE_TIMEOUT) now as (cst_wire s) = (now1, as1, w1)"
    by (metis prod_cases3)
  then obtain u1 where u1: "as = u1 @ as1" "w1 = feed_all u1 (cst_wire s)" using wait_until_fed by blast
  then have s1: "s\<lparr>cst_wire := w1\<rparr> = fed u1 s" by (simp add: fed_def)
  obtain h s2 where h: "hello_exchange J caps (fed u1 s) = (h, s2)" by fastforce
  show ?thesis
  proof (cases h)
    case (Inl e)
    then have "accept_control J uuid tok caps (fed u1 s) = (r, s')"
      using assms w1 s1 h by (simp add: accept_control_timed_def accept_control_steps)
    then show ?thesis using u1(1) by (auto simp: prefix_def)
  next
    case (Inr hello)
    obtain now2 as2 w2 where w2: "wait_until frame_ready (now1 + HANDSHAKE_TIMEOUT) now1 as1 (cst_wire s2) = (now2, as2, w2)"
      by (metis prod_cases3)
    then obtain u2 where u2: "as1 = u2 @ as2" "w2 = feed_all u2 (cst_wire s2)" using wait_until_fed by blast
    then have s3: "s2\<lparr>cst_wire := w2\<rparr> = fed u2 s2" by (simp add: fed_def)
    have "token_step J uuid tok hello (fed u2 s2) = (r, s')"
      using assms w1 s1 h Inr w2 s3 by (simp add: accept_control_timed_def)
    then have "accept_control J uuid tok caps (fed (u1 @ u2) s) = (r, s')"
      using hello_exchange_fed [of J caps "fed u1 s" hello s2 u2] h Inr by (simp add: accept_control_steps fed_append)
    then show ?thesis using u1(1) u2(1) by (intro exI [of _ "u1 @ u2"]) simp
  qed
qed

lemma media_hello_in_time:
  assumes "read_media_hello_timed J now as s = (now', r, s')"
  shows "\<exists>used. prefix used as \<and> read_media_hello J (s\<lparr>ms_wire := feed_all used (ms_wire s)\<rparr>) = (r, s')"
proof -
  obtain now1 as1 w1 where w1: "wait_until (bytes_ready 4) (now + MEDIA_HANDSHAKE_TIMEOUT) now as (ms_wire s) = (now1, as1, w1)"
    by (metis prod_cases3)
  then obtain u1 where u1: "as = u1 @ as1" "w1 = feed_all u1 (ms_wire s)" using wait_until_fed by blast
  show ?thesis
  proof (cases "length (rx w1) < 4")
    case True
    then show ?thesis
      using assms w1 u1 by (intro exI [of _ u1]) (simp add: read_media_hello_timed_def)
  next
    case False
    let ?n = "4 + unat (from_be_bytes32 (take 4 (rx w1)))"
    obtain now2 as2 w2 where w2: "wait_until (bytes_ready ?n) (now1 + MEDIA_HANDSHAKE_TIMEOUT) now1 as1 w1 = (now2, as2, w2)"
      by (metis prod_cases3)
    then obtain u2 where u2: "as1 = u2 @ as2" "w2 = feed_all u2 w1" using wait_until_fed by blast
    then have "w2 = feed_all (u1 @ u2) (ms_wire s)" using u1(2) by (simp add: feed_all_def)
    then show ?thesis
      using assms w1 w2 False u1(1) u2(1)
      by (intro exI [of _ "u1 @ u2"]) (simp add: read_media_hello_timed_def Let_def)
  qed
qed

section \<open>The loop as a run of the core\<close>

lemma serve_control_arm:
  assumes "serve_control J uuid cs as now app = (now', app')"
  obtains used where "prefix used as" "app' = app_wifi_control J uuid now' (fed used cs) app"
proof -
  obtain r cs' where t: "accept_control_timed J uuid (qr_token (ap_qr app)) server_caps now as cs = (now', r, cs')"
    using assms by (auto simp: serve_control_def Let_def split: prod.splits sum.splits)
  obtain used where u: "prefix used as"
    "accept_control J uuid (qr_token (ap_qr app)) server_caps (fed used cs) = (r, cs')"
    using accept_control_in_time [OF t] by blast
  have "app' = app_wifi_control J uuid now' (fed used cs) app"
    using assms t u(2) by (cases r) (simp_all add: serve_control_def app_wifi_control_def Let_def)
  then show thesis using that u(1) by blast
qed

lemma serve_media_arm:
  assumes "serve_media J ms as now app = (now', app')"
  obtains used where "prefix used as" "app' = app_wifi_media J (ms\<lparr>ms_wire := feed_all used (ms_wire ms)\<rparr>) app"
proof -
  obtain r ms' where t: "read_media_hello_timed J now as ms = (now', r, ms')"
    using assms by (auto simp: serve_media_def split: prod.splits sum.splits)
  obtain used where u: "prefix used as" "read_media_hello J (ms\<lparr>ms_wire := feed_all used (ms_wire ms)\<rparr>) = (r, ms')"
    using media_hello_in_time [OF t] by blast
  have "app' = app_wifi_media J (ms\<lparr>ms_wire := feed_all used (ms_wire ms)\<rparr>) app"
    using assms t u(2) by (cases r) (simp_all add: serve_media_def app_wifi_media_def)
  then show thesis using that u(1) by blast
qed

lemma serve_one_time:
  assumes "serve_one J c now app = (now', app')"
  shows "now \<le> now' \<and> now' \<le> now + from_secs 10"
proof (cases c)
  case (ControlConn uuid s as)
  then obtain r s' where "accept_control_timed J uuid (qr_token (ap_qr app)) server_caps now as s = (now', r, s')"
    using assms by (auto simp: serve_one_def serve_control_def Let_def split: prod.splits sum.splits)
  from accept_control_time [OF this] show ?thesis by (simp add: HANDSHAKE_TIMEOUT_def from_secs_def)
next
  case (MediaConn s as)
  then obtain r s' where "read_media_hello_timed J now as s = (now', r, s')"
    using assms by (auto simp: serve_one_def serve_media_def split: prod.splits sum.splits)
  from media_hello_time [OF this] show ?thesis by (simp add: MEDIA_HANDSHAKE_TIMEOUT_def from_secs_def)
qed

lemma serve_one_step:
  assumes "serve_one J c now app = (now', app')"
  shows "app_step J C submit app app'"
proof (cases c)
  case (ControlConn uuid s as)
  then have "serve_control J uuid s as now app = (now', app')" using assms by (simp add: serve_one_def)
  then show ?thesis using serve_control_arm app_step.wifi_control by metis
next
  case (MediaConn s as)
  then have "serve_media J s as now app = (now', app')" using assms by (simp add: serve_one_def)
  then show ?thesis using serve_media_arm app_step.wifi_media by metis
qed

text \<open>C7. 
  The accept loop keeps time and invents nothing: whatever the peers send and whenever, serving a
  sequence of connections is a run of the core, so every property of its runs holds, and takes
  at most ten seconds for each connection, so a phone is served after at most ten seconds for
  each connection before it.
\<close>

theorem accept_loop_in_time:
  assumes "app_run J C submit app0 app" and "serve J cs now app = (now', app')"
  shows "app_run J C submit app0 app' \<and> now \<le> now' \<and> now' \<le> now + length cs * from_secs 10"
  using assms
proof (induction cs arbitrary: now app)
  case (Cons c cs)
  obtain now1 app1 where one: "serve_one J c now app = (now1, app1)" by fastforce
  have "app_run J C submit app0 app1" using run_step [OF Cons.prems(1) serve_one_step [OF one]] .
  moreover have "serve J cs now1 app1 = (now', app')" using Cons.prems(2) one by simp
  ultimately show ?case using Cons.IH serve_one_time [OF one] by fastforce
qed simp

text \<open>
  Silent peers hold the loop: connections to the control port that never send anything cost five
  seconds each, while nobody else is served, and leave the snapshot with port zero.
\<close>

definition silent_conn :: "string \<Rightarrow> connection" where
  "silent_conn uuid = ControlConn uuid (idle_stream []) []"

lemma silent_not_ready: "\<not> frame_ready (cst_wire (idle_stream []))"
  by (simp add: frame_ready_def read_frame_def read_exact_def idle_stream_def)

lemma silent_hello: "\<exists>s1. hello_exchange J caps (idle_stream []) = (Inl HandshakeTimeout, s1)"
  by (simp add: hello_exchange_def hs_recv_def cs_recv_def read_frame_def read_exact_def idle_stream_def)

lemma silent_served:
  "serve_one J (silent_conn uuid) now app = (now + HANDSHAKE_TIMEOUT, set_state (Listening 0 0) app)"
proof -
  obtain s1 where "hello_exchange J server_caps (idle_stream []) = (Inl HandshakeTimeout, s1)"
    using silent_hello by blast
  then have "accept_control_timed J uuid (qr_token (ap_qr app)) server_caps now [] (idle_stream []) =
      (now + HANDSHAKE_TIMEOUT, Inl HandshakeTimeout, s1)"
    using silent_not_ready by (simp add: accept_control_timed_def)
  then show ?thesis by (simp add: serve_one_def silent_conn_def serve_control_def set_state_def)
qed

lemma silent_peers_hold_loop:
  "serve J (map silent_conn uuids) now app =
    (now + length uuids * HANDSHAKE_TIMEOUT, if uuids = [] then app else set_state (Listening 0 0) app)"
proof (induction uuids arbitrary: now app)
  case (Cons u us)
  then show ?case
    using Cons.IH [of "now + HANDSHAKE_TIMEOUT" "set_state (Listening 0 0) app"]
    by (simp add: silent_served set_state_def)
qed simp

definition two_silent :: "instant \<times> unit app_handle" where
  "two_silent = serve ping_text (map silent_conn [''a'', ''b'']) 0 (app_start ''192.168.0.2'' [0, 0, 0] 5000 5001)"

theorem accept_loop_in_time_witness:
  "app_run ping_text demo_codec (\<lambda>k f. k) (app_start ''192.168.0.2'' [0, 0, 0] 5000 5001) (snd two_silent) \<and>
   fst two_silent = from_secs 10 \<and> fst two_silent \<le> 2 * from_secs 10"
proof -
  have "fst two_silent = from_secs 10"
    unfolding two_silent_def silent_peers_hold_loop by (simp add: HANDSHAKE_TIMEOUT_def from_secs_def)
  moreover have "serve ping_text (map silent_conn [''a'', ''b'']) 0 (app_start ''192.168.0.2'' [0, 0, 0] 5000 5001)
      = (fst two_silent, snd two_silent)" by (simp add: two_silent_def del: serve.simps)
  from accept_loop_in_time [OF run_init this, of demo_codec "\<lambda>k f. k"] have
    "app_run ping_text demo_codec (\<lambda>k f. k) (app_start ''192.168.0.2'' [0, 0, 0] 5000 5001) (snd two_silent)"
    "fst two_silent \<le> 2 * from_secs 10" by simp_all
  ultimately show ?thesis by simp
qed

end
