(* ===== verification/App_Tasks.thy ===== *)
theory App_Tasks
  imports Main
begin

text \<open>
  The background tasks of the application core that \<open>start_usb_supervisor\<close> and \<open>shutdown\<close>
  start and abort (\<open>crates/app/src/lib.rs\<close>): the accept loop, and for every call a
  supervisor that dials devices and a consumer that runs their handshakes. Only the consumer's
  handle is kept, and the supervisor's handle lives inside the consumer, so that aborting the
  consumer detaches the supervisor. At most one consumer ever runs; supervisors are left
  behind until they next hand over a device.
\<close>

section \<open>Tasks\<close>

record usb_pair =
  up_supervisor :: bool
  up_consumer :: bool

text \<open>\<open>ct_slot\<close> is the handle in \<open>usb_supervisor_task\<close>, an index into the pairs started so far.\<close>

record core_tasks =
  ct_accept :: bool
  ct_usb :: "usb_pair list"
  ct_slot :: "nat option"

definition tasks_start :: core_tasks where
  "tasks_start = \<lparr> ct_accept = True, ct_usb = [], ct_slot = None \<rparr>"

text \<open>Aborting a consumer drops the receiver of dialled devices and the supervisor's handle.\<close>

definition abort_consumer :: "nat \<Rightarrow> core_tasks \<Rightarrow> core_tasks" where
  "abort_consumer n t = t\<lparr>ct_usb := (ct_usb t)[n := (ct_usb t ! n)\<lparr>up_consumer := False\<rparr>]\<rparr>"

definition start_usb_supervisor :: "core_tasks \<Rightarrow> core_tasks" where
  "start_usb_supervisor t =
     (let t1 = t\<lparr>ct_usb := ct_usb t @ [\<lparr> up_supervisor = True, up_consumer = True \<rparr>],
                 ct_slot := Some (length (ct_usb t))\<rparr>
      in case ct_slot t of Some prev \<Rightarrow> abort_consumer prev t1 | None \<Rightarrow> t1)"

text \<open>\<open>shutdown\<close>; the slot's lock may be held by a call of \<open>start_usb_supervisor\<close>, and then only the
  accept loop is aborted.\<close>

definition shutdown :: "bool \<Rightarrow> core_tasks \<Rightarrow> core_tasks" where
  "shutdown lock_free t =
     (let t1 = t\<lparr>ct_accept := False\<rparr> in
      if lock_free then
        case ct_slot t of Some n \<Rightarrow> abort_consumer n (t1\<lparr>ct_slot := None\<rparr>) | None \<Rightarrow> t1
      else t1)"

text \<open>The supervisor of pair \<open>n\<close> has dialled a device: it hands the streams over, or returns when the
  receiver is gone.\<close>

definition hand_over :: "nat \<Rightarrow> core_tasks \<Rightarrow> bool \<times> core_tasks" where
  "hand_over n t =
     (if up_consumer (ct_usb t ! n) then (True, t)
      else (False, t\<lparr>ct_usb := (ct_usb t)[n := (ct_usb t ! n)\<lparr>up_supervisor := False\<rparr>]\<rparr>))"

text \<open>The device events of pair \<open>n\<close> end: its supervisor returns, and the consumer, whose channel is
  closed with it.\<close>

definition events_end :: "nat \<Rightarrow> core_tasks \<Rightarrow> core_tasks" where
  "events_end n t = t\<lparr>ct_usb := (ct_usb t)[n := \<lparr> up_supervisor = False, up_consumer = False \<rparr>]\<rparr>"

section \<open>Runs\<close>

inductive task_step :: "core_tasks \<Rightarrow> core_tasks \<Rightarrow> bool" where
  Start: "task_step t (start_usb_supervisor t)"
| Shutdown: "task_step t (shutdown lock_free t)"
| HandOver: "n < length (ct_usb t) \<Longrightarrow> up_supervisor (ct_usb t ! n) \<Longrightarrow> task_step t (snd (hand_over n t))"
| EventsEnd: "n < length (ct_usb t) \<Longrightarrow> up_supervisor (ct_usb t ! n) \<Longrightarrow> task_step t (events_end n t)"

inductive_cases task_stepE: "task_step t t'"

definition consuming :: "core_tasks \<Rightarrow> nat \<Rightarrow> bool" where
  "consuming t n \<longleftrightarrow> n < length (ct_usb t) \<and> up_consumer (ct_usb t ! n)"

lemma consuming_abort: "consuming (abort_consumer k t) n \<longleftrightarrow> consuming t n \<and> n \<noteq> k"
  by (cases "k = n") (auto simp: consuming_def abort_consumer_def)

lemma consuming_hand_over: "consuming (snd (hand_over k t)) n \<longleftrightarrow> consuming t n"
  by (cases "k = n") (auto simp: consuming_def hand_over_def)

lemma consuming_events_end: "consuming (events_end k t) n \<Longrightarrow> consuming t n"
  by (cases "k = n") (auto simp: consuming_def events_end_def)

text \<open>The invariant: the slot names a pair, and a running consumer is the slot's.\<close>

definition tasks_inv :: "core_tasks \<Rightarrow> bool" where
  "tasks_inv t \<longleftrightarrow> pred_option (\<lambda>n. n < length (ct_usb t)) (ct_slot t) \<and>
     (\<forall>n. consuming t n \<longrightarrow> n \<in> set_option (ct_slot t))"

lemma tasks_inv_start: "tasks_inv tasks_start"
  by (auto simp: tasks_inv_def tasks_start_def consuming_def)

lemma tasks_inv_usb:
  assumes "tasks_inv t"
  shows "tasks_inv (start_usb_supervisor t)"
proof -
  let ?t1 = "t\<lparr>ct_usb := ct_usb t @ [\<lparr> up_supervisor = True, up_consumer = True \<rparr>], ct_slot := Some (length (ct_usb t))\<rparr>"
  have "consuming ?t1 n \<longleftrightarrow> consuming t n \<or> n = length (ct_usb t)" for n
    by (auto simp: consuming_def nth_append)
  then show ?thesis
    using assms
    by (cases "ct_slot t")
      (auto simp: tasks_inv_def start_usb_supervisor_def Let_def consuming_abort, simp_all add: abort_consumer_def)
qed

lemma tasks_inv_shutdown:
  assumes "tasks_inv t"
  shows "tasks_inv (shutdown lock_free t)"
proof -
  have "consuming (t\<lparr>ct_accept := False, ct_slot := s\<rparr>) n \<longleftrightarrow> consuming t n" "consuming (t\<lparr>ct_accept := False\<rparr>) n \<longleftrightarrow> consuming t n" for s n
    by (simp_all add: consuming_def)
  then show ?thesis
    using assms by (cases "ct_slot t")
      (auto simp: tasks_inv_def shutdown_def Let_def consuming_abort, simp_all add: abort_consumer_def)
qed

lemma tasks_inv_hand_over: "tasks_inv t \<Longrightarrow> tasks_inv (snd (hand_over n t))"
  by (auto simp: tasks_inv_def consuming_hand_over) (simp_all add: hand_over_def)

lemma tasks_inv_events_end: "tasks_inv t \<Longrightarrow> tasks_inv (events_end n t)"
  by (auto simp: tasks_inv_def dest!: consuming_events_end) (simp_all add: events_end_def)

lemma tasks_inv_step: "task_step t t' \<Longrightarrow> tasks_inv t \<Longrightarrow> tasks_inv t'"
  by (elim task_stepE) (auto intro: tasks_inv_usb tasks_inv_shutdown tasks_inv_hand_over tasks_inv_events_end)

text \<open>At most one consumer runs, so no two handshakes of USB devices run at a time, and a device is
  only ever handed to the consumer of the last \<open>start_usb_supervisor\<close>.\<close>

theorem one_usb_consumer:
  assumes "task_step\<^sup>*\<^sup>* tasks_start t" and "n < length (ct_usb t)" and "fst (hand_over n t)"
  shows "ct_slot t = Some n \<and> (\<forall>m < length (ct_usb t). m \<noteq> n \<longrightarrow> \<not> fst (hand_over m t))"
proof -
  have "tasks_inv t"
    using assms(1) by (induction rule: rtranclp_induct) (auto intro: tasks_inv_start tasks_inv_step)
  then have slot: "consuming t m \<Longrightarrow> ct_slot t = Some m" for m
    by (auto simp: tasks_inv_def)
  have "fst (hand_over m t) \<longleftrightarrow> consuming t m" if "m < length (ct_usb t)" for m
    using that by (simp add: hand_over_def consuming_def)
  then show ?thesis using assms(2,3) slot by (metis option.inject)
qed

text \<open>Supervisors are left behind: any number of calls leaves as many supervisors running, each still
  dialling devices, and \<open>shutdown\<close> stops none of them.\<close>

lemma usb_supervisors_pile_up:
  "map up_supervisor (ct_usb (shutdown lock_free ((start_usb_supervisor ^^ k) tasks_start))) = replicate k True"
proof -
  have abort: "map up_supervisor (ct_usb (abort_consumer n t)) = map up_supervisor (ct_usb t)" for n t
  proof (rule nth_equalityI)
    fix i assume "i < length (map up_supervisor (ct_usb (abort_consumer n t)))"
    then show "map up_supervisor (ct_usb (abort_consumer n t)) ! i = map up_supervisor (ct_usb t) ! i"
      by (cases "n = i") (simp_all add: abort_consumer_def)
  qed (simp add: abort_consumer_def)
  have start: "map up_supervisor (ct_usb (start_usb_supervisor t)) = map up_supervisor (ct_usb t) @ [True]" for t
    by (cases "ct_slot t") (simp_all add: start_usb_supervisor_def Let_def abort)
  have stop: "map up_supervisor (ct_usb (shutdown lock_free t)) = map up_supervisor (ct_usb t)" for t
    by (cases "ct_slot t") (simp_all add: shutdown_def Let_def abort)
  show ?thesis
    unfolding stop by (induction k) (simp_all add: start tasks_start_def replicate_append_same)
qed

end
