(* ===== verification/Spec2Isabelle.thy ===== *)
theory Spec2Isabelle
  imports Media_Sharing Usb_Session Adaptation_Loop Shell_Pump Command_Lock Accept_Timing App_Tasks
begin

text \<open>
  ClearCam: a verification of the desktop side of an iPhone webcam.

  \<^bold>\<open>The program.\<close> A phone captures video and sends it to a desktop program, over Wi-Fi (the phone
  connects after scanning a QR code with address, ports and a one-time token) or over USB (the
  desktop dials the phone; both sides hold a pairing key). There are two connections: a control
  connection with length-prefixed JSON envelopes, and a media connection with 28-byte binary
  headers and raw or encoded frames. After a handshake on the control connection the phone names
  the session on the media connection. The desktop then runs, per session, a control plane
  (keepalive, device data, telemetry, commands to the phone), a media pipeline (decoder and
  sinks, with speedtest filler diverted to a counter), and a driver that turns telemetry into
  changes of the video mode. A Tauri shell puts a user interface on top. All of this is Rust
  under \<open>src/desktop\<close>; paths below are relative to it.

  \<^bold>\<open>Theories and sources.\<close>

  \<^item> \<open>Prelude\<close>: machine integers, byte strings, big-endian encodings, and the locale
    \<open>prefix_codec\<close> of self-delimiting codecs. \<open>F64\<close>: IEEE double precision with rounding
    written out. \<open>Std_Time\<close>: durations and instants in nanoseconds. \<open>Json\<close>: JSON values and
    the field codecs of serde. \<open>Kv_Store\<close>: the locale of key-value stores.
  \<^item> Protocol, \<open>crates/ccp-protocol\<close>: \<open>Ccp_Control\<close> (all messages), \<open>Ccp_Json\<close> (their derived
    codecs), \<open>Ccp_Envelope\<close> (framing), \<open>Ccp_Media\<close> (media header).
  \<^item> Transport, \<open>crates/transport\<close>: \<open>Transport\<close> (frames on a socket, typed streams),
    \<open>Transport_Usb\<close> (USB conductors, device events, dialling, Wi-Fi client and server).
  \<^item> Adaptive engine, \<open>crates/adaptive\<close>: \<open>Adaptive_Tables\<close>, \<open>Adaptive_Select\<close>
    (\<open>select_mode\<close>), \<open>Adaptive_Speedtest\<close> (\<open>evaluate\<close> and the ramp), \<open>Adaptive_Ladder\<close>
    (\<open>AdaptationState::observe\<close>).
  \<^item> Media, \<open>crates/mediapipeline\<close>, \<open>decode\<close>, \<open>sink\<close>: \<open>Media_Pipeline\<close>.
  \<^item> Session, \<open>crates/session\<close>: \<open>Session_State\<close>, \<open>Session_Handshake\<close>, \<open>Session_Control\<close>.
  \<^item> Application, \<open>crates/app\<close>: \<open>App_Pairing\<close> (pairing store on disk, adaptation driver,
    transport selector, USB supervisor), \<open>Base64_Url\<close> (token text), \<open>App_Core\<close> (\<open>AppHandle\<close>,
    accept loop, session tasks, commands), \<open>App_Admission\<close> (its specification as a gate, and
    the refinement), \<open>App_Commands\<close> (camera, speedtest, end of a session), \<open>App_Tasks\<close> (the tasks
    \<open>start_usb_supervisor\<close> and \<open>shutdown\<close> start and abort),
    \<open>Accept_Timing\<close> (the accept loop with the times at which bytes arrive and its deadlines).
  \<^item> Mock phone, \<open>tools/mock-iphone\<close>: \<open>Mock_Phone\<close>. Shell, \<open>src-tauri\<close>: \<open>Desktop_Shell\<close>
    (commands, preview, translation of events), \<open>Shell_Pump\<close> (the loop of \<open>events.rs\<close> while servers
    are stopped and started).
  \<^item> Tasks that wait for each other: \<open>Step_System\<close> (runs of step functions), \<open>Event_Channel\<close> (the
    control plane cut at its event sends, behind the channel of 64), \<open>Command_Lock\<close> (a command that
    holds the application state, the pump that needs it, the control plane, and the driver).
  \<^item> The phone and the desktop connected byte by byte: \<open>End_To_End\<close> (Wi-Fi connection, the
    records of video and ramp), \<open>Media_Sharing\<close> (video and ramp as tasks on one connection, in any
    schedule), \<open>Usb_Session\<close> (trust, dialling, USB session), \<open>Adaptation_Loop\<close> (telemetry, driver,
    new mode, over and over).

  \<^bold>\<open>How code is modelled.\<close> A struct is a record, an enum a datatype with the same variants, an
  unsigned integer a word of its width (arithmetic wraps, as in a release build, and where a
  theorem needs it, it is proved that it does not). A fallible function returns a sum. A socket is a
  \<open>wire\<close>: bytes that have arrived and not been read, whether the peer closed, bytes written, and
  how many more writes succeed. A read that finds too few bytes on an open socket is \<open>Pending\<close>, and
  a timeout is what a pending read under \<open>timeout\<close> becomes. Tasks are steps: the branches of a
  \<open>select!\<close> loop are functions on the task's state, and \<open>cp_run\<close> (one control plane) and
  \<open>app_step\<close> with \<open>app_run\<close> (the whole core) let them interleave in any order with arriving bytes,
  ticks, connections and commands; what a dropped receive does to the bytes it had read is part
  of the step. A step between two awaits is atomic. Channels are lists that do not
  block, except in \<open>Event_Channel\<close>, \<open>Shell_Pump\<close> and \<open>Command_Lock\<close>, where the event channel has its
  64 places and the outbound channel its 16, and every run of the control plane behind them is
  shown to be one of the unbounded runs. Time stamps, random bytes, session ids and answers of
  the operating system are arguments.

  \<^bold>\<open>Parameters.\<close> Code outside the repository is an argument: the JSON text codec of serde_json
  (\<open>json_text\<close>; theorems that need it assume, for the envelopes at hand, that the text of a value
  parses to that value and fits a frame), base64 and TOML of the pairing store (\<open>pairing_codec\<close>),
  the QR encoder, the image crate, usbmuxd and the idevice crate. Witnesses instantiate them.

  \<^bold>\<open>Recursion and fuel.\<close> No definition needs fuel: the loop over media records ends by a measure on
  the bytes left, the ladder of modes by a lexicographic measure, parsing by the length of its
  input, and loops that never end in the code are driven by the list of events they see.

  \<^bold>\<open>What is shown.\<close>

  \<^item> Admission: the handshakes accept exactly the peers with the protocol version and the
    credential, and say so on the wire; every interleaving of the core refines a small gate;
    media reaches only the session it names; sessions appear only for authenticated peers; and
    a phone with the token does get connected, as does a USB phone once it is trusted. The
    loop serves every connection within ten seconds, and the untimed handshakes are exact.
  \<^item> Control plane: the session state machine, sequence numbers, the snapshot as a fold of the
    messages, detection of a dead peer, answers to pings; with the bounded event channel all of
    this holds too, but an unread channel stops the session.
  \<^item> Media: records and headers round-trip, cutting the stream anywhere does not matter, sinks
    see only well-formed video, filler only reaches the counter; the phone's video arrives in
    order and its ramp is measured exactly, under every schedule of the two.
  \<^item> Adaptation: selection is optimal among the admissible modes, within 70% of what was
    measured in rounded arithmetic; cooldowns, the ladder and its end, no overflow; and over both
    programs: a phone that stays congested is led down the whole ladder.
  \<^item> Codecs: every envelope round-trips through JSON; frames through buffers and sockets.
  \<^item> Persistence and shell: pairings survive a restart, saving is crash-safe; device events
    track the devices; the preview is in bounds exactly for even sizes and is throttled; the
    window sees the events of each server in order, and catches up with the running one.
  \<^item> Defects are theorems too: a dropped receive loses bytes, the end of an old session
    silences a newer one, a stopped server can hold the event pump, a camera command can lock the
    shell for good (and exactly when it does), silent peers delay everyone else, a failed save
    stays in memory, a step-down can raise the bitrate, a failed handshake shows port zero.

  Interfaces are locales, interpreted on the model: \<open>prefix_codec\<close> (frames, media records),
  \<open>kv_store\<close> (pending media bindings, pairings), \<open>credential_handshake\<close> (Wi-Fi, USB),
  \<open>nv12_decoder\<close> (passthrough), \<open>cp_invariant\<close> (invariants of the control plane),
  \<open>device_events\<close> (polling, listening), \<open>simulation\<close> (the core and its gate), \<open>step_invariant\<close>
  (the bounded control plane, the pump, the lock).

  \<^bold>\<open>Not modelled.\<close> Logging; back-pressure of the channel to the accept loop (8 places) and of the
  sockets; the registration code of the shell; the files named \<open>... 2.rs\<close>, which are older copies
  that are not compiled; tests. The React user interface and the Swift application are other programs; the mock phone stands in for the latter.
\<close>

end
